theory Spec2Isabelle
  imports Complex_Main "HOL-Library.Sublist"
begin

section \<open>MediFind: the staged facility search of \<open>get_hospitals.py\<close>\<close>

text \<open>
  The module keeps two process-wide caches and talks to three outside services: the
  Overpass spatial backend (\<open>api.query\<close>), the forward geocoder (\<open>geocode\<close>) and the
  reverse geocoder (\<open>reverse_geocode\<close>). The model threads the caches through every
  function as an explicit state, together with the log of the outbound calls made so far,
  and takes the services and the library functions the module calls as a record of
  functions. A service's reply may depend on the calls made before it, so a service may
  fail once and answer later.
\<close>

subsection \<open>Data\<close>

type_synonym coords = "real \<times> real"

text \<open>An OSM node as \<open>overpy\<close> delivers it: a tag dictionary and a position.\<close>

record node =
  node_tags :: "string \<rightharpoonup> string"
  node_lat :: real
  node_lon :: real

text \<open>
  The facility dictionary built at lines 77 to 85. Its key \<open>"type"\<close> is the field
  \<open>facility_type\<close>; \<open>address\<close> and \<open>distance\<close> may hold Python's \<open>None\<close>.
\<close>

record facility =
  name :: string
  facility_type :: string
  lat :: real
  lon :: real
  address :: "string option"
  found_in :: string
  distance :: "real option"

text \<open>
  The three Overpass query texts differ only in the values interpolated into them, so a
  query is recorded by those values.
\<close>

datatype query =
  NamedArea string string
  | BBox real real real real
  | Around int real real

datatype event =
  OverpassQuery query
  | Geocode string
  | ReverseGeocode coords

datatype geocode_reply = GeocodeFound real real | GeocodeNoMatch | GeocodeRaises

datatype reverse_reply = ReverseFound string | ReverseNoMatch | ReverseRaises

text \<open>
  The outside world. \<open>overpass\<close> answers \<open>None\<close> when \<open>api.query\<close> raises.
  \<open>geocode\<close> and \<open>reverse_geocode\<close> are the two rate-limited callables of lines 23 and
  24 as the module sees them: one call, one reply, whatever waiting and retrying happens
  inside \<open>geopy\<close>. \<open>geodesic_km\<close> is \<open>geopy.distance.geodesic(p, q).kilometers\<close>, taken
  to be defined on every pair of positions; \<open>str_float\<close> and \<open>str_decimal\<close> are Python's
  formatting of a float and of a node coordinate inside an f-string; \<open>str_lower\<close> is
  \<open>str.lower\<close>. Coordinates and distances are real numbers.
\<close>

record world =
  overpass :: "event list \<Rightarrow> query \<Rightarrow> node list option"
  geocode :: "event list \<Rightarrow> string \<Rightarrow> geocode_reply"
  reverse_geocode :: "event list \<Rightarrow> coords \<Rightarrow> reverse_reply"
  geodesic_km :: "coords \<Rightarrow> coords \<Rightarrow> real"
  str_float :: "real \<Rightarrow> string"
  str_decimal :: "real \<Rightarrow> string"
  str_lower :: "string \<Rightarrow> string"

text \<open>The module's globals \<open>coords_cache\<close> and \<open>reverse_cache\<close>, and the call log.\<close>

record state =
  coords_cache :: "string \<rightharpoonup> coords"
  reverse_cache :: "coords \<rightharpoonup> string"
  calls :: "event list"

definition initial_state :: state where
  "initial_state = \<lparr>coords_cache = Map.empty, reverse_cache = Map.empty, calls = []\<rparr>"

datatype error = AttributeError

subsection \<open>Python's truth values, \<open>join\<close> and \<open>in\<close>\<close>

definition truthy_str :: "string option \<Rightarrow> bool" where
  "truthy_str v = (case v of None \<Rightarrow> False | Some s \<Rightarrow> s \<noteq> [])"

definition truthy_float :: "real option \<Rightarrow> bool" where
  "truthy_float v = (case v of None \<Rightarrow> False | Some x \<Rightarrow> x \<noteq> 0)"

fun join :: "string \<Rightarrow> string list \<Rightarrow> string" where
  "join sep [] = []"
| "join sep [x] = x"
| "join sep (x # y # ys) = x @ sep @ join sep (y # ys)"

text \<open>\<open>needle in haystack\<close> on strings: some suffix of the haystack starts with the needle.\<close>

fun py_in :: "string \<Rightarrow> string \<Rightarrow> bool" where
  "py_in xs [] = (xs = [])"
| "py_in xs (y # ys) = (prefix xs (y # ys) \<or> py_in xs ys)"

subsection \<open>Reverse geocoding of one coordinate pair (lines 35 to 53)\<close>

definition reverse_address :: "world \<Rightarrow> coords \<Rightarrow> reverse_reply \<Rightarrow> string" where
  "reverse_address W key r =
     (case r of
        ReverseFound a \<Rightarrow> a
      | ReverseNoMatch \<Rightarrow> ''Address not found''
      | ReverseRaises \<Rightarrow>
          ''Coordinates: ('' @ str_decimal W (fst key) @ '', '' @ str_decimal W (snd key) @ '')'')"

definition fetch_reverse_geocode :: "world \<Rightarrow> coords \<Rightarrow> state \<Rightarrow> (coords \<times> string) \<times> state" where
  "fetch_reverse_geocode W key st =
     (case reverse_cache st key of
        Some cached \<Rightarrow> ((key, cached), st)
      | None \<Rightarrow>
          (let address = reverse_address W key (reverse_geocode W (calls st) key)
           in ((key, address),
               st\<lparr>reverse_cache := (reverse_cache st)(key \<mapsto> address),
                  calls := calls st @ [ReverseGeocode key]\<rparr>)))"

subsection \<open>Enrichment (lines 57 to 104)\<close>

definition address_components :: "string list" where
  "address_components =
     [''addr:housenumber'', ''addr:street'', ''addr:city'', ''addr:state'', ''addr:postcode'']"

definition node_address :: "node \<Rightarrow> string option" where
  "node_address n =
     (let address = node_tags n ''addr:full'' in
      if \<not> truthy_str address then
        (let components =
               map (\<lambda>k. the (node_tags n k))
                 (filter (\<lambda>k. truthy_str (node_tags n k)) address_components)
         in if components \<noteq> [] then Some (join '', '' components) else None)
      else address)"

definition make_facility ::
  "world \<Rightarrow> string \<Rightarrow> real option \<Rightarrow> real option \<Rightarrow> node \<Rightarrow> facility" where
  "make_facility W label ref_lat ref_lon n =
     \<lparr>name = (case node_tags n ''name'' of Some v \<Rightarrow> v | None \<Rightarrow> ''Unknown''),
      facility_type =
        (case node_tags n ''healthcare'' of
           Some v \<Rightarrow> v
         | None \<Rightarrow> (case node_tags n ''amenity'' of Some v \<Rightarrow> v | None \<Rightarrow> ''Unknown'')),
      lat = node_lat n,
      lon = node_lon n,
      address = node_address n,
      found_in = label,
      distance =
        (if truthy_float ref_lat \<and> truthy_float ref_lon
         then Some (geodesic_km W (the ref_lat, the ref_lon) (node_lat n, node_lon n))
         else None)\<rparr>"

text \<open>
  The inner loop of lines 98 to 101: the first facility whose position equals the key
  gets the address, and the loop breaks.
\<close>

fun apply_address :: "coords \<Rightarrow> string \<Rightarrow> facility list \<Rightarrow> facility list" where
  "apply_address key a [] = []"
| "apply_address key a (f # fs) =
     (if (lat f, lon f) = key then f\<lparr>address := Some a\<rparr> # fs
      else f # apply_address key a fs)"

text \<open>
  The second pass. The pool of five workers is modelled by the schedule that runs the
  submitted lookups one after the other, in the order of submission, and hands them to
  \<open>as_completed\<close> in that order.
\<close>

fun second_pass :: "world \<Rightarrow> coords list \<Rightarrow> facility list \<Rightarrow> state \<Rightarrow> facility list \<times> state" where
  "second_pass W [] fs st = (fs, st)"
| "second_pass W (c # cs) fs st =
     (case fetch_reverse_geocode W c st of
        ((key, a), st') \<Rightarrow> second_pass W cs (apply_address key a fs) st')"

definition node_to_medical_facility ::
  "world \<Rightarrow> node list \<Rightarrow> string \<Rightarrow> real option \<Rightarrow> real option \<Rightarrow> state
     \<Rightarrow> facility list \<times> state" where
  "node_to_medical_facility W nodes label ref_lat ref_lon st =
     (let facilities = map (make_facility W label ref_lat ref_lon) nodes;
          coords_to_geocode =
            map (\<lambda>f. (lat f, lon f)) (filter (\<lambda>f. \<not> truthy_str (address f)) facilities)
      in second_pass W coords_to_geocode facilities st)"

subsection \<open>The three spatial queries (lines 108 to 175)\<close>

definition log_call :: "event \<Rightarrow> state \<Rightarrow> state" where
  "log_call e st = st\<lparr>calls := calls st @ [e]\<rparr>"

definition query_hospitals_in_area ::
  "world \<Rightarrow> string \<Rightarrow> string \<Rightarrow> state \<Rightarrow> facility list \<times> state" where
  "query_hospitals_in_area W area_name parent_area st =
     (let q = NamedArea area_name parent_area in
      case overpass W (calls st) q of
        Some nodes \<Rightarrow>
          node_to_medical_facility W nodes area_name None None (log_call (OverpassQuery q) st)
      | None \<Rightarrow> ([], log_call (OverpassQuery q) st))"

definition query_hospitals_in_bbox ::
  "world \<Rightarrow> real \<Rightarrow> real \<Rightarrow> real \<Rightarrow> state \<Rightarrow> facility list \<times> state" where
  "query_hospitals_in_bbox W la lo delta st =
     (let q = BBox (la - delta) (lo - delta) (la + delta) (lo + delta) in
      case overpass W (calls st) q of
        Some nodes \<Rightarrow>
          node_to_medical_facility W nodes ''bounding box'' (Some la) (Some lo)
            (log_call (OverpassQuery q) st)
      | None \<Rightarrow> ([], log_call (OverpassQuery q) st))"

text \<open>
  The sort key of line 170, \<open>h["distance"] or float('inf')\<close>: a float or infinity.
\<close>

datatype sort_key_value = Km real | Infinity

instantiation sort_key_value :: linorder
begin

fun less_eq_sort_key_value :: "sort_key_value \<Rightarrow> sort_key_value \<Rightarrow> bool" where
  "less_eq_sort_key_value (Km x) (Km y) = (x \<le> y)"
| "less_eq_sort_key_value (Km x) Infinity = True"
| "less_eq_sort_key_value Infinity (Km y) = False"
| "less_eq_sort_key_value Infinity Infinity = True"

definition less_sort_key_value :: "sort_key_value \<Rightarrow> sort_key_value \<Rightarrow> bool" where
  "less_sort_key_value a b = (a \<le> b \<and> \<not> b \<le> a)"

instance
proof
  fix a b c :: sort_key_value
  show "(a < b) = (a \<le> b \<and> \<not> b \<le> a)"
    by (simp add: less_sort_key_value_def)
  show "a \<le> a"
    by (cases a) simp_all
  show "a \<le> b \<Longrightarrow> b \<le> c \<Longrightarrow> a \<le> c"
    by (cases a; cases b; cases c) simp_all
  show "a \<le> b \<Longrightarrow> b \<le> a \<Longrightarrow> a = b"
    by (cases a; cases b) simp_all
  show "a \<le> b \<or> b \<le> a"
    by (cases a; cases b) auto
qed

end

definition distance_key :: "facility \<Rightarrow> sort_key_value" where
  "distance_key h = (if truthy_float (distance h) then Km (the (distance h)) else Infinity)"

definition query_hospitals_around ::
  "world \<Rightarrow> real \<Rightarrow> real \<Rightarrow> int \<Rightarrow> state \<Rightarrow> facility list \<times> state" where
  "query_hospitals_around W la lo radius st =
     (let q = Around radius la lo in
      case overpass W (calls st) q of
        Some nodes \<Rightarrow>
          (case node_to_medical_facility W nodes
                  (''within '' @ str_float W (real_of_int radius / 1000) @ '' km'')
                  (Some la) (Some lo) (log_call (OverpassQuery q) st) of
             (hospitals, st') \<Rightarrow> (sort_key distance_key hospitals, st'))
      | None \<Rightarrow> ([], log_call (OverpassQuery q) st))"

subsection \<open>Forward geocoding with the cache (lines 179 to 195)\<close>

definition full_address :: "string \<Rightarrow> string \<Rightarrow> string \<Rightarrow> string \<Rightarrow> string" where
  "full_address area_name district state country =
     area_name @ '', '' @ district @ '', '' @ state @ '', '' @ country"

definition get_coords ::
  "world \<Rightarrow> string \<Rightarrow> string \<Rightarrow> string \<Rightarrow> string \<Rightarrow> state \<Rightarrow> coords option \<times> state" where
  "get_coords W area_name district state country st =
     (let a = full_address area_name district state country in
      case coords_cache st a of
        Some c \<Rightarrow> (Some c, st)
      | None \<Rightarrow>
          (case geocode W (calls st) a of
             GeocodeFound la lo \<Rightarrow>
               (Some (la, lo),
                st\<lparr>coords_cache := (coords_cache st)(a \<mapsto> (la, lo)),
                   calls := calls st @ [Geocode a]\<rparr>)
           | GeocodeNoMatch \<Rightarrow> (None, log_call (Geocode a) st)
           | GeocodeRaises \<Rightarrow> (None, log_call (Geocode a) st)))"

subsection \<open>The address filter (lines 199 to 204)\<close>

text \<open>
  The list comprehension calls \<open>h["address"].lower()\<close> on every facility, in order, and so
  raises \<open>AttributeError\<close> at a facility whose address is \<open>None\<close>.
\<close>

fun filter_by_address :: "world \<Rightarrow> facility list \<Rightarrow> string \<Rightarrow> error + facility list" where
  "filter_by_address W [] area_name = Inr []"
| "filter_by_address W (h # hs) area_name =
     (case address h of
        None \<Rightarrow> Inl AttributeError
      | Some a \<Rightarrow>
          (case filter_by_address W hs area_name of
             Inl e \<Rightarrow> Inl e
           | Inr rest \<Rightarrow>
               Inr (if py_in (str_lower W area_name) (str_lower W a) then h # rest else rest)))"

subsection \<open>The staged search (lines 208 to 248)\<close>

text \<open>Step 3, the loop of lines 228 to 237; \<open>None\<close> when every radius came back empty.\<close>

function radius_search ::
  "world \<Rightarrow> real \<Rightarrow> real \<Rightarrow> int \<Rightarrow> state \<Rightarrow> facility list option \<times> state" where
  "radius_search W la lo current_radius st =
     (if current_radius \<le> 50000 then
        (case query_hospitals_around W la lo current_radius st of
           (hospitals, st') \<Rightarrow>
             if hospitals \<noteq> [] then (Some (take 10 hospitals), st')
             else radius_search W la lo (current_radius + 5000) st')
      else (None, st))"
  by pat_completeness auto
termination
  by (relation "measure (\<lambda>(W, la, lo, r, st). nat (55000 - r))") auto

text \<open>Steps 4 and 5, lines 239 to 248: the district query, filtered by address.\<close>

definition parent_area_fallback ::
  "world \<Rightarrow> string \<Rightarrow> string \<Rightarrow> string \<Rightarrow> state \<Rightarrow> (error + facility list) \<times> state" where
  "parent_area_fallback W state district area_name st =
     (case query_hospitals_in_area W district state st of
        (parent_hospitals, st') \<Rightarrow>
          (case filter_by_address W parent_hospitals area_name of
             Inl e \<Rightarrow> (Inl e, st')
           | Inr filtered \<Rightarrow> (if filtered \<noteq> [] then (Inr filtered, st') else (Inr [], st'))))"

definition get_hospitals ::
  "world \<Rightarrow> string \<Rightarrow> string \<Rightarrow> string \<Rightarrow> string \<Rightarrow> state \<Rightarrow> (error + facility list) \<times> state" where
  "get_hospitals W country state district area_name st =
     (case query_hospitals_in_area W area_name district st of
        (hospitals, st1) \<Rightarrow>
          if hospitals \<noteq> [] then (Inr hospitals, st1)
          else
            (case get_coords W area_name district state country st1 of
               (Some (la, lo), st2) \<Rightarrow>
                 (case query_hospitals_in_bbox W la lo 0.045 st2 of
                    (hospitals, st3) \<Rightarrow>
                      if hospitals \<noteq> [] then (Inr hospitals, st3)
                      else
                        (case radius_search W la lo 5000 st3 of
                           (Some found, st4) \<Rightarrow> (Inr found, st4)
                         | (None, st4) \<Rightarrow> parent_area_fallback W state district area_name st4))
             | (None, st2) \<Rightarrow> parent_area_fallback W state district area_name st2))"

subsection \<open>Concrete worlds\<close>

text \<open>
  Stand-ins for the outside world, used to run the functions above on concrete inputs:
  services that answer the same at every call, a distance that is zero exactly between
  equal positions, a number format that is right on whole numbers, and lower-casing of
  the ASCII letters.
\<close>

fun digits :: "nat \<Rightarrow> string" where
  "digits n =
     (if n < 10 then [''0123456789'' ! n]
      else digits (n div 10) @ [''0123456789'' ! (n mod 10)])"

declare digits.simps [simp del]

definition demo_str :: "real \<Rightarrow> string" where
  "demo_str x = (if x < 0 then ''-'' else []) @ digits (nat \<lfloor>\<bar>x\<bar>\<rfloor>) @ ''.0''"

definition ascii_lower :: "char \<Rightarrow> char" where
  "ascii_lower c =
     (case map_of (zip ''ABCDEFGHIJKLMNOPQRSTUVWXYZ'' ''abcdefghijklmnopqrstuvwxyz'') c of
        Some l \<Rightarrow> l
      | None \<Rightarrow> c)"

definition demo_geodesic :: "coords \<Rightarrow> coords \<Rightarrow> real" where
  "demo_geodesic p q = 111 * (\<bar>fst p - fst q\<bar> + \<bar>snd p - snd q\<bar>)"

definition demo_world ::
  "(query \<Rightarrow> node list option) \<Rightarrow> (string \<Rightarrow> geocode_reply) \<Rightarrow> (coords \<Rightarrow> reverse_reply)
     \<Rightarrow> world" where
  "demo_world ov ge re =
     \<lparr>overpass = (\<lambda>tr. ov), geocode = (\<lambda>tr. ge), reverse_geocode = (\<lambda>tr. re),
      geodesic_km = demo_geodesic, str_float = demo_str, str_decimal = demo_str,
      str_lower = map ascii_lower\<rparr>"

definition demo_node :: "string \<Rightarrow> string option \<Rightarrow> real \<Rightarrow> real \<Rightarrow> node" where
  "demo_node nm addr la lo =
     \<lparr>node_tags = [''name'' \<mapsto> nm, ''amenity'' \<mapsto> ''hospital''](''addr:full'' := addr),
      node_lat = la, node_lon = lo\<rparr>"

text \<open>
  Only the radius query finds anything: one facility at the geocoded point itself and one
  1.11 km away.
\<close>

definition zero_distance_world :: world where
  "zero_distance_world =
     demo_world
       (\<lambda>q. case q of
              Around r la lo \<Rightarrow>
                Some [demo_node ''Here'' (Some ''1 Main St'') 35 139,
                      demo_node ''Far'' (Some ''2 Main St'') 35 139.01]
            | _ \<Rightarrow> Some [])
       (\<lambda>a. GeocodeFound 35 139) (\<lambda>c. ReverseNoMatch)"

text \<open>The area is geocoded to a point on the equator; the bounding box holds one clinic.\<close>

definition equator_world :: world where
  "equator_world =
     demo_world
       (\<lambda>q. case q of
              BBox s w n e \<Rightarrow> Some [demo_node ''Clinic'' (Some ''3 Line Rd'') 0.01 30]
            | _ \<Rightarrow> Some [])
       (\<lambda>a. GeocodeFound 0 30) (\<lambda>c. ReverseNoMatch)"

subsection \<open>Reading the call log\<close>

text \<open>The Overpass queries and the forward-geocoding calls of a log, in order.\<close>

fun overpass_calls :: "event list \<Rightarrow> query list" where
  "overpass_calls [] = []"
| "overpass_calls (OverpassQuery q # es) = q # overpass_calls es"
| "overpass_calls (e # es) = overpass_calls es"

fun geocode_calls :: "event list \<Rightarrow> string list" where
  "geocode_calls [] = []"
| "geocode_calls (Geocode a # es) = a # geocode_calls es"
| "geocode_calls (e # es) = geocode_calls es"

text \<open>
  The named area Shibuya in Shibuya holds three facilities, one of them without address
  tags.
\<close>

definition shibuya_world :: world where
  "shibuya_world =
     demo_world
       (\<lambda>q. case q of
              NamedArea a p \<Rightarrow>
                if a = ''Shibuya'' \<and> p = ''Shibuya''
                then Some [demo_node ''Hospital A'' (Some ''1 Dogenzaka'') 35.5 139.5,
                           demo_node ''Clinic B'' None 35 139,
                           demo_node ''Pharmacy C'' (Some ''3 Jinnan'') 35.25 139.75]
                else Some []
            | _ \<Rightarrow> Some [])
       (\<lambda>a. GeocodeFound 35 139) (\<lambda>c. ReverseFound ''2 Udagawacho'')"

text \<open>
  The area Jinnan is unknown to the backend and to the geocoder; the district Shibuya in
  Tokyo holds three facilities; every bounding-box and radius query would find one.
\<close>

definition fallback_world :: world where
  "fallback_world =
     demo_world
       (\<lambda>q. case q of
              NamedArea a p \<Rightarrow>
                if a = ''Shibuya'' \<and> p = ''Tokyo''
                then Some [demo_node ''Hospital A'' (Some ''1 Jinnan, Shibuya'') 35.5 139.5,
                           demo_node ''Clinic B'' (Some ''5 Ebisu, Shibuya'') 35 139,
                           demo_node ''Pharmacy C'' (Some ''JINNAN 3-2'') 35.25 139.75]
                else Some []
            | _ \<Rightarrow> Some [demo_node ''Nearby'' (Some ''9 Elsewhere'') 35 139])
       (\<lambda>a. GeocodeNoMatch) (\<lambda>c. ReverseNoMatch)"

text \<open>
  The world in which every Overpass query that would raise answers with no node instead.
\<close>

definition empty_on_failure :: "world \<Rightarrow> world" where
  "empty_on_failure W =
     W\<lparr>overpass := (\<lambda>tr q. case overpass W tr q of None \<Rightarrow> Some [] | Some ns \<Rightarrow> Some ns)\<rparr>"

text \<open>The spatial backend is down: every query raises.\<close>

definition unreachable_world :: world where
  "unreachable_world = demo_world (\<lambda>q. None) (\<lambda>a. GeocodeFound 35 139) (\<lambda>c. ReverseNoMatch)"

text \<open>
  The named-area queries raise; the bounding box holds one clinic 1.11 km from the
  geocoded point; the radius queries find nothing.
\<close>

definition area_down_world :: world where
  "area_down_world =
     demo_world
       (\<lambda>q. case q of
              NamedArea a p \<Rightarrow> None
            | BBox s w n e \<Rightarrow> Some [demo_node ''Clinic'' (Some ''3 Line Rd'') 35.01 139]
            | Around r la lo \<Rightarrow> Some [])
       (\<lambda>a. GeocodeFound 35 139) (\<lambda>c. ReverseNoMatch)"

text \<open>The district Shibuya in Tokyo holds three facilities, all with an address.\<close>

definition district_world :: world where
  "district_world =
     demo_world
       (\<lambda>q. case q of
              NamedArea a p \<Rightarrow>
                if a = ''Shibuya'' \<and> p = ''Tokyo''
                then Some [demo_node ''Hospital A'' (Some ''1 Jinnan'') 35.5 139.5,
                           demo_node ''Clinic B'' (Some ''5 Ebisu'') 35 139,
                           demo_node ''Pharmacy C'' (Some ''JINNAN 3'') 35.25 139.75]
                else Some []
            | _ \<Rightarrow> Some [])
       (\<lambda>a. GeocodeNoMatch) (\<lambda>c. ReverseNoMatch)"

subsection \<open>A process lifetime\<close>

text \<open>
  What the process is asked to do, one request after the other: a forward-geocode request
  or a whole search. \<open>run\<close> serves a list of requests and returns the state they leave.
\<close>

datatype request =
  GetCoords string string string string
  | GetHospitals string string string string

fun serve :: "world \<Rightarrow> request \<Rightarrow> state \<Rightarrow> state" where
  "serve W (GetCoords area_name district state country) st =
     snd (get_coords W area_name district state country st)"
| "serve W (GetHospitals country state district area_name) st =
     snd (get_hospitals W country state district area_name st)"

fun run :: "world \<Rightarrow> request list \<Rightarrow> state \<Rightarrow> state" where
  "run W [] st = st"
| "run W (r # rs) st = run W rs (serve W r st)"

text \<open>
  A step is quiet when it leaves the geocode cache alone and only appends calls other than
  forward-geocoding calls to the log.
\<close>

definition quiet :: "state \<Rightarrow> state \<Rightarrow> bool" where
  "quiet st st' \<longleftrightarrow>
     coords_cache st' = coords_cache st \<and> prefix (calls st) (calls st')
     \<and> geocode_calls (calls st') = geocode_calls (calls st)"

text \<open>
  The invariant of the geocode cache: an address whose logged call was answered with a
  location is cached with that location, and no later call for it is in the log.
\<close>

definition geocode_inv :: "world \<Rightarrow> state \<Rightarrow> bool" where
  "geocode_inv W st \<longleftrightarrow>
     (\<forall>i a la lo. i < length (calls st) \<and> calls st ! i = Geocode a
        \<and> geocode W (take i (calls st)) a = GeocodeFound la lo \<longrightarrow>
        coords_cache st a = Some (la, lo)
        \<and> (\<forall>j. i < j \<and> j < length (calls st) \<longrightarrow> calls st ! j \<noteq> Geocode a))"

text \<open>
  The geocoder fails at its first call and answers (35, 139) from then on; the backend
  finds nothing.
\<close>

definition flaky_geocoder_world :: world where
  "flaky_geocoder_world =
     (demo_world (\<lambda>q. Some []) (\<lambda>a. GeocodeRaises) (\<lambda>c. ReverseNoMatch))
       \<lparr>geocode := (\<lambda>tr a. if geocode_calls tr = [] then GeocodeRaises else GeocodeFound 35 139)\<rparr>"

definition flaky_requests :: "request list" where
  "flaky_requests =
     [GetCoords ''Jinnan'' ''Shibuya'' ''Tokyo'' ''Japan'',
      GetCoords ''Jinnan'' ''Shibuya'' ''Tokyo'' ''Japan'',
      GetCoords ''Ebisu'' ''Shibuya'' ''Tokyo'' ''Japan'',
      GetCoords ''Jinnan'' ''Shibuya'' ''Tokyo'' ''Japan'']"

text \<open>Three nodes at three places; the second has no address tag.\<close>

definition clinic_nodes :: "node list" where
  "clinic_nodes =
     [demo_node ''Hospital A'' (Some ''1 Dogenzaka'') 35.5 139.5,
      demo_node ''Clinic B'' None 35 139,
      demo_node ''Pharmacy C'' (Some ''3 Jinnan'') 35.25 139.75]"

section \<open>Properties\<close>

lemmas demo_defs = demo_world_def demo_node_def demo_geodesic_def demo_str_def ascii_lower_def
  digits.simps

lemmas model_defs = query_hospitals_around_def query_hospitals_in_area_def
  query_hospitals_in_bbox_def node_to_medical_facility_def make_facility_def node_address_def
  address_components_def fetch_reverse_geocode_def reverse_address_def log_call_def
  truthy_str_def truthy_float_def distance_key_def initial_state_def get_coords_def
  full_address_def parent_area_fallback_def get_hospitals_def radius_search.simps Let_def

subsection \<open>The sort of the radius stage\<close>

lemma sorted_query_hospitals_around:
  "sorted (map distance_key (fst (query_hospitals_around W la lo radius st)))"
  by (simp add: query_hospitals_around_def Let_def split: option.splits prod.splits)

text \<open>
  C10. The key of the radius stage's sort turns a falsy distance into infinity. So in the
  list \<open>query_hospitals_around\<close> returns, a facility whose distance is exactly 0.0 has the
  key infinity and stands after every facility with a positive distance.
\<close>

theorem zero_distance_sorts_last:
  assumes "hospitals = fst (query_hospitals_around W la lo radius st)"
    and "i < length hospitals" and "j < length hospitals"
    and "distance (hospitals ! i) = Some 0"
    and "distance (hospitals ! j) = Some d" and "0 < d"
  shows "distance_key (hospitals ! i) = Infinity \<and> j < i"
proof -
  have ki: "distance_key (hospitals ! i) = Infinity"
    using assms(4) by (simp add: distance_key_def truthy_float_def)
  have kj: "distance_key (hospitals ! j) = Km d"
    using assms(5,6) by (simp add: distance_key_def truthy_float_def)
  have srt: "sorted (map distance_key hospitals)"
    using assms(1) sorted_query_hospitals_around by simp
  have "i \<noteq> j"
    using assms(4,5,6) by auto
  moreover have "\<not> i < j"
  proof
    assume "i < j"
    with srt assms(3) have "map distance_key hospitals ! i \<le> map distance_key hospitals ! j"
      by (intro sorted_nth_mono) simp_all
    with assms(2,3) ki kj show False by simp
  qed
  ultimately show ?thesis using ki by simp
qed

theorem zero_distance_sorts_last_witness:
  "(1::nat) < length (fst (query_hospitals_around zero_distance_world 35 139 5000 initial_state))
   \<and> distance (fst (query_hospitals_around zero_distance_world 35 139 5000 initial_state) ! 1)
       = Some 0
   \<and> distance (fst (query_hospitals_around zero_distance_world 35 139 5000 initial_state) ! 0)
       = Some 1.11
   \<and> name (fst (query_hospitals_around zero_distance_world 35 139 5000 initial_state) ! 1)
       = ''Here''
   \<and> distance_key (fst (query_hospitals_around zero_distance_world 35 139 5000 initial_state) ! 1)
       = Infinity"
  using zero_distance_sorts_last [of _ zero_distance_world 35 139 5000 initial_state 1 0 "1.11"]
  by (simp add: zero_distance_world_def demo_defs model_defs)

text \<open>
  C2. The radius stage is to return its list in ascending order of distance. Here the
  named area and the bounding box are empty, the area is geocoded to (35, 139), and the
  5 km query finds a facility at that very point and one 1.11 km away. The search returns
  the facility at distance 0.0 after the one at 1.11 km.
\<close>

theorem zero_distance_after_positive:
  "fst (get_hospitals zero_distance_world ''Japan'' ''Tokyo'' ''Shibuya'' ''Shibuya'' initial_state) =
     Inr [\<lparr>name = ''Far'', facility_type = ''hospital'', lat = 35, lon = 139.01,
            address = Some ''2 Main St'', found_in = ''within 5.0 km'', distance = Some 1.11\<rparr>,
          \<lparr>name = ''Here'', facility_type = ''hospital'', lat = 35, lon = 139,
            address = Some ''1 Main St'', found_in = ''within 5.0 km'', distance = Some 0\<rparr>]"
  by (simp add: zero_distance_world_def demo_defs model_defs)

subsection \<open>The distance field\<close>

text \<open>
  C8. The distance is to be present whenever both reference coordinates are supplied.
  Here the area is geocoded to latitude 0.0, the bounding-box query passes both
  coordinates to the enrichment, and the facility comes back without a distance.
\<close>

theorem equator_reference_no_distance:
  "fst (get_hospitals equator_world ''Uganda'' ''Central'' ''Mpigi'' ''Kayabwe'' initial_state) =
     Inr [\<lparr>name = ''Clinic'', facility_type = ''hospital'', lat = 0.01, lon = 30,
            address = Some ''3 Line Rd'', found_in = ''bounding box'', distance = None\<rparr>]"
  by (simp add: equator_world_def demo_defs model_defs)

subsection \<open>What each function does to the caches and the call log\<close>

lemma overpass_calls_append [simp]:
  "overpass_calls (xs @ ys) = overpass_calls xs @ overpass_calls ys"
  by (induction xs rule: overpass_calls.induct) simp_all

lemma geocode_calls_append [simp]:
  "geocode_calls (xs @ ys) = geocode_calls xs @ geocode_calls ys"
  by (induction xs rule: geocode_calls.induct) simp_all

lemma fetch_reverse_geocode_frame:
  "coords_cache (snd (fetch_reverse_geocode W k st)) = coords_cache st"
  "overpass_calls (calls (snd (fetch_reverse_geocode W k st))) = overpass_calls (calls st)"
  "geocode_calls (calls (snd (fetch_reverse_geocode W k st))) = geocode_calls (calls st)"
  by (simp_all add: fetch_reverse_geocode_def Let_def split: option.splits)

lemma second_pass_frame:
  "coords_cache (snd (second_pass W cs fs st)) = coords_cache st"
  "overpass_calls (calls (snd (second_pass W cs fs st))) = overpass_calls (calls st)"
  "geocode_calls (calls (snd (second_pass W cs fs st))) = geocode_calls (calls st)"
proof (induction cs arbitrary: fs st)
  case Nil
  {
    case 1 show ?case by simp
  next
    case 2 show ?case by simp
  next
    case 3 show ?case by simp
  }
next
  case (Cons c cs)
  {
    case 1
    show ?case
      using Cons.IH(1) fetch_reverse_geocode_frame(1) [of W c st]
      by (simp split: prod.splits) (metis snd_conv)
  next
    case 2
    show ?case
      using Cons.IH(2) fetch_reverse_geocode_frame(2) [of W c st]
      by (simp split: prod.splits) (metis snd_conv)
  next
    case 3
    show ?case
      using Cons.IH(3) fetch_reverse_geocode_frame(3) [of W c st]
      by (simp split: prod.splits) (metis snd_conv)
  }
qed

lemma node_to_medical_facility_frame:
  "coords_cache (snd (node_to_medical_facility W ns l rla rlo st)) = coords_cache st"
  "overpass_calls (calls (snd (node_to_medical_facility W ns l rla rlo st))) = overpass_calls (calls st)"
  "geocode_calls (calls (snd (node_to_medical_facility W ns l rla rlo st))) = geocode_calls (calls st)"
  by (simp_all add: node_to_medical_facility_def Let_def second_pass_frame)

lemma query_hospitals_in_area_frame:
  "coords_cache (snd (query_hospitals_in_area W a p st)) = coords_cache st"
  "overpass_calls (calls (snd (query_hospitals_in_area W a p st))) =
     overpass_calls (calls st) @ [NamedArea a p]"
  "geocode_calls (calls (snd (query_hospitals_in_area W a p st))) = geocode_calls (calls st)"
  by (simp_all add: query_hospitals_in_area_def Let_def node_to_medical_facility_frame log_call_def
      split: option.splits)

lemma query_hospitals_in_bbox_frame:
  "coords_cache (snd (query_hospitals_in_bbox W la lo delta st)) = coords_cache st"
  "overpass_calls (calls (snd (query_hospitals_in_bbox W la lo delta st))) =
     overpass_calls (calls st) @ [BBox (la - delta) (lo - delta) (la + delta) (lo + delta)]"
  "geocode_calls (calls (snd (query_hospitals_in_bbox W la lo delta st))) = geocode_calls (calls st)"
  by (simp_all add: query_hospitals_in_bbox_def Let_def node_to_medical_facility_frame log_call_def
      split: option.splits)

lemma query_hospitals_around_frame:
  "coords_cache (snd (query_hospitals_around W la lo r st)) = coords_cache st"
  "overpass_calls (calls (snd (query_hospitals_around W la lo r st))) =
     overpass_calls (calls st) @ [Around r la lo]"
  "geocode_calls (calls (snd (query_hospitals_around W la lo r st))) = geocode_calls (calls st)"
  using node_to_medical_facility_frame
    [of W _ "''within '' @ str_float W (real_of_int r / 1000) @ '' km''" "Some la" "Some lo"
        "log_call (OverpassQuery (Around r la lo)) st"]
  by (simp_all add: query_hospitals_around_def Let_def log_call_def
      split: option.splits prod.splits) (metis snd_conv)+

subsection \<open>The stages of the search\<close>

text \<open>
  C1. Whenever the named-area query (area within district) returns at least one facility,
  \<open>get_hospitals\<close> returns exactly that enriched list and stops in the state the query
  left: the forward geocoder is not called, the geocode cache is untouched, and the
  named-area query is the only Overpass query made.
\<close>

theorem named_area_result_returned:
  assumes "query_hospitals_in_area W area_name district st = (hospitals, st1)"
    and "hospitals \<noteq> []"
  shows "get_hospitals W country state district area_name st = (Inr hospitals, st1)
    \<and> geocode_calls (calls st1) = geocode_calls (calls st)
    \<and> overpass_calls (calls st1) = overpass_calls (calls st) @ [NamedArea area_name district]
    \<and> coords_cache st1 = coords_cache st"
proof -
  have "get_hospitals W country state district area_name st = (Inr hospitals, st1)"
    using assms by (simp add: get_hospitals_def)
  moreover have "st1 = snd (query_hospitals_in_area W area_name district st)"
    using assms(1) by simp
  ultimately show ?thesis
    by (simp add: query_hospitals_in_area_frame)
qed

theorem named_area_result_returned_witness:
  "fst (query_hospitals_in_area shibuya_world ''Shibuya'' ''Shibuya'' initial_state) \<noteq> []
   \<and> fst (get_hospitals shibuya_world ''Japan'' ''Tokyo'' ''Shibuya'' ''Shibuya'' initial_state) =
       Inr (fst (query_hospitals_in_area shibuya_world ''Shibuya'' ''Shibuya'' initial_state))
   \<and> map name (fst (query_hospitals_in_area shibuya_world ''Shibuya'' ''Shibuya'' initial_state)) =
       [''Hospital A'', ''Clinic B'', ''Pharmacy C'']
   \<and> map found_in (fst (query_hospitals_in_area shibuya_world ''Shibuya'' ''Shibuya'' initial_state)) =
       [''Shibuya'', ''Shibuya'', ''Shibuya'']
   \<and> calls (snd (get_hospitals shibuya_world ''Japan'' ''Tokyo'' ''Shibuya'' ''Shibuya'' initial_state)) =
       [OverpassQuery (NamedArea ''Shibuya'' ''Shibuya''), ReverseGeocode (35, 139)]"
  using named_area_result_returned
    [of shibuya_world "''Shibuya''" "''Shibuya''" initial_state
        "fst (query_hospitals_in_area shibuya_world ''Shibuya'' ''Shibuya'' initial_state)"
        "snd (query_hospitals_in_area shibuya_world ''Shibuya'' ''Shibuya'' initial_state)"
        "''Japan''" "''Tokyo''"]
  by (simp add: shibuya_world_def demo_defs model_defs)

lemma get_coords_frame:
  "overpass_calls (calls (snd (get_coords W a d s c st))) = overpass_calls (calls st)"
  by (simp add: get_coords_def Let_def log_call_def split: option.splits geocode_reply.splits)

lemma parent_area_fallback_frame:
  "coords_cache (snd (parent_area_fallback W s d a st)) = coords_cache st"
  "overpass_calls (calls (snd (parent_area_fallback W s d a st))) =
     overpass_calls (calls st) @ [NamedArea d s]"
  "geocode_calls (calls (snd (parent_area_fallback W s d a st))) = geocode_calls (calls st)"
  using query_hospitals_in_area_frame [of W d s st]
  by (auto simp add: parent_area_fallback_def split: prod.splits sum.splits)

text \<open>
  C3. When the named area is empty and forward geocoding fails (the address is not cached
  and the service finds no match or raises), \<open>get_hospitals\<close> goes on with the
  parent-area stage at once: its result is that of \<open>parent_area_fallback\<close>, and the
  only Overpass queries of the whole search are the named-area query and the district
  query; no bounding-box and no radius query is made.
\<close>

theorem geocode_failure_skips_to_parent_area:
  assumes "query_hospitals_in_area W area_name district st = ([], st1)"
    and "coords_cache st (full_address area_name district state country) = None"
    and "geocode W (calls st1) (full_address area_name district state country) = GeocodeNoMatch
         \<or> geocode W (calls st1) (full_address area_name district state country) = GeocodeRaises"
  shows "get_hospitals W country state district area_name st =
           parent_area_fallback W state district area_name
             (log_call (Geocode (full_address area_name district state country)) st1)
    \<and> overpass_calls (calls (snd (get_hospitals W country state district area_name st))) =
        overpass_calls (calls st) @ [NamedArea area_name district, NamedArea district state]"
proof -
  have c1: "coords_cache st1 = coords_cache st"
    using query_hospitals_in_area_frame(1) [of W area_name district st] assms(1) by simp
  have o1: "overpass_calls (calls st1) = overpass_calls (calls st) @ [NamedArea area_name district]"
    using query_hospitals_in_area_frame(2) [of W area_name district st] assms(1) by simp
  have gc: "get_coords W area_name district state country st1 =
              (None, log_call (Geocode (full_address area_name district state country)) st1)"
    using assms(2,3) c1 by (auto simp add: get_coords_def Let_def)
  have eq: "get_hospitals W country state district area_name st =
           parent_area_fallback W state district area_name
             (log_call (Geocode (full_address area_name district state country)) st1)"
    using assms(1) gc by (simp add: get_hospitals_def)
  show ?thesis
    using eq o1 by (simp add: parent_area_fallback_frame log_call_def)
qed

theorem geocode_failure_skips_to_parent_area_witness:
  "fst (query_hospitals_in_area fallback_world ''Jinnan'' ''Shibuya'' initial_state) = []
   \<and> geocode fallback_world
        (calls (snd (query_hospitals_in_area fallback_world ''Jinnan'' ''Shibuya'' initial_state)))
        (full_address ''Jinnan'' ''Shibuya'' ''Tokyo'' ''Japan'') = GeocodeNoMatch
   \<and> overpass_calls (calls (snd (get_hospitals fallback_world ''Japan'' ''Tokyo'' ''Shibuya'' ''Jinnan''
        initial_state))) = [NamedArea ''Jinnan'' ''Shibuya'', NamedArea ''Shibuya'' ''Tokyo'']"
proof -
  have a: "query_hospitals_in_area fallback_world ''Jinnan'' ''Shibuya'' initial_state =
    ([], log_call (OverpassQuery (NamedArea ''Jinnan'' ''Shibuya'')) initial_state)"
    by (simp add: fallback_world_def demo_world_def query_hospitals_in_area_def
        node_to_medical_facility_def)
  have c: "coords_cache initial_state (full_address ''Jinnan'' ''Shibuya'' ''Tokyo'' ''Japan'') = None"
    by (simp add: initial_state_def)
  have g: "geocode fallback_world tr x = GeocodeNoMatch" for tr x
    by (simp add: fallback_world_def demo_world_def)
  have e: "calls initial_state = []"
    by (simp add: initial_state_def)
  show ?thesis
    using geocode_failure_skips_to_parent_area [OF a c disjI1 [OF g], THEN conjunct2]
    by (simp add: a g e)
qed

subsection \<open>A failing backend\<close>

lemma reverse_address_empty_on_failure:
  "reverse_address (empty_on_failure W) k r = reverse_address W k r"
  by (simp add: reverse_address_def empty_on_failure_def split: reverse_reply.splits)

lemma reverse_geocode_empty_on_failure:
  "reverse_geocode (empty_on_failure W) = reverse_geocode W"
  by (simp add: empty_on_failure_def)

lemma fetch_reverse_geocode_empty_on_failure:
  "fetch_reverse_geocode (empty_on_failure W) k st = fetch_reverse_geocode W k st"
  unfolding fetch_reverse_geocode_def reverse_address_empty_on_failure
    reverse_geocode_empty_on_failure
  by (rule refl)

lemma second_pass_empty_on_failure:
  "second_pass (empty_on_failure W) cs fs st = second_pass W cs fs st"
  by (induction cs arbitrary: fs st) (simp_all add: fetch_reverse_geocode_empty_on_failure)

lemma node_to_medical_facility_empty_on_failure:
  "node_to_medical_facility (empty_on_failure W) ns l rla rlo st =
     node_to_medical_facility W ns l rla rlo st"
proof -
  have "make_facility (empty_on_failure W) l rla rlo = make_facility W l rla rlo"
    by (rule ext) (simp add: make_facility_def empty_on_failure_def)
  then show ?thesis
    by (simp add: node_to_medical_facility_def second_pass_empty_on_failure)
qed

lemma node_to_medical_facility_Nil:
  "node_to_medical_facility W [] l rla rlo st = ([], st)"
  by (simp add: node_to_medical_facility_def)

lemma overpass_empty_on_failure:
  "overpass (empty_on_failure W) tr q =
     (case overpass W tr q of None \<Rightarrow> Some [] | Some ns \<Rightarrow> Some ns)"
  by (simp add: empty_on_failure_def)

lemma str_float_empty_on_failure: "str_float (empty_on_failure W) = str_float W"
  by (simp add: empty_on_failure_def)

lemma query_hospitals_in_area_empty_on_failure:
  "query_hospitals_in_area (empty_on_failure W) a p st = query_hospitals_in_area W a p st"
  by (simp add: query_hospitals_in_area_def Let_def overpass_empty_on_failure
      node_to_medical_facility_empty_on_failure node_to_medical_facility_Nil split: option.splits)

lemma query_hospitals_in_bbox_empty_on_failure:
  "query_hospitals_in_bbox (empty_on_failure W) la lo delta st =
     query_hospitals_in_bbox W la lo delta st"
  by (simp add: query_hospitals_in_bbox_def Let_def overpass_empty_on_failure
      node_to_medical_facility_empty_on_failure node_to_medical_facility_Nil split: option.splits)

lemma query_hospitals_around_empty_on_failure:
  "query_hospitals_around (empty_on_failure W) la lo r st = query_hospitals_around W la lo r st"
  by (simp add: query_hospitals_around_def Let_def overpass_empty_on_failure
      node_to_medical_facility_empty_on_failure node_to_medical_facility_Nil
      str_float_empty_on_failure split: option.splits)

lemma radius_search_empty_on_failure:
  "radius_search (empty_on_failure W) la lo r st = radius_search W la lo r st"
proof (induction W la lo r st rule: radius_search.induct)
  case (1 W la lo current_radius st)
  obtain hs st' where q: "query_hospitals_around W la lo current_radius st = (hs, st')"
    by (cases "query_hospitals_around W la lo current_radius st")
  show ?case
    using "1.IH" q
    by (simp add: radius_search.simps [of _ la lo current_radius st]
        query_hospitals_around_empty_on_failure)
qed

lemma get_coords_empty_on_failure:
  "get_coords (empty_on_failure W) a d s c st = get_coords W a d s c st"
  by (simp add: get_coords_def empty_on_failure_def Let_def
      split: option.splits geocode_reply.splits)

lemma filter_by_address_empty_on_failure:
  "filter_by_address (empty_on_failure W) hs a = filter_by_address W hs a"
  by (induction hs) (simp_all add: empty_on_failure_def split: option.splits sum.splits)

lemma parent_area_fallback_empty_on_failure:
  "parent_area_fallback (empty_on_failure W) s d a st = parent_area_fallback W s d a st"
  by (simp add: parent_area_fallback_def query_hospitals_in_area_empty_on_failure
      filter_by_address_empty_on_failure)

lemma get_hospitals_empty_on_failure:
  "get_hospitals (empty_on_failure W) c s d a st = get_hospitals W c s d a st"
  unfolding get_hospitals_def query_hospitals_in_area_empty_on_failure
    get_coords_empty_on_failure query_hospitals_in_bbox_empty_on_failure
    radius_search_empty_on_failure parent_area_fallback_empty_on_failure
  by (rule refl)

lemma radius_search_all_raise:
  assumes "\<forall>tr q. overpass W tr q = None"
  shows "fst (radius_search W la lo r st) = None"
using assms proof (induction W la lo r st rule: radius_search.induct)
  case (1 W la lo current_radius st)
  have q: "query_hospitals_around W la lo current_radius st =
             ([], log_call (OverpassQuery (Around current_radius la lo)) st)"
    using "1.prems" by (simp add: query_hospitals_around_def)
  show ?case
    using "1.IH" "1.prems" q
    by (simp add: radius_search.simps [of _ la lo current_radius st])
qed

lemma all_raise_empty:
  assumes "\<forall>tr q. overpass W tr q = None"
  shows "fst (get_hospitals W c s d a st) = Inr []"
proof -
  have area: "query_hospitals_in_area W x y t = ([], log_call (OverpassQuery (NamedArea x y)) t)"
    for x y t
    using assms by (simp add: query_hospitals_in_area_def)
  have bbox: "fst (query_hospitals_in_bbox W la lo dl t) = []" for la lo dl t
    using assms by (simp add: query_hospitals_in_bbox_def)
  have parent: "fst (parent_area_fallback W s d a t) = Inr []" for t
    by (simp add: parent_area_fallback_def area)
  obtain co st2 where gc: "get_coords W a d s c (log_call (OverpassQuery (NamedArea a d)) st) = (co, st2)"
    by (cases "get_coords W a d s c (log_call (OverpassQuery (NamedArea a d)) st)")
  show ?thesis
  proof (cases co)
    case None
    with gc show ?thesis
      by (simp add: get_hospitals_def area parent)
  next
    case (Some p)
    obtain la lo where p: "p = (la, lo)" by (cases p)
    obtain hs st3 where bb: "query_hospitals_in_bbox W la lo 0.045 st2 = (hs, st3)"
      by (cases "query_hospitals_in_bbox W la lo 0.045 st2")
    with bbox [of la lo "0.045" st2] have hs: "hs = []" by simp
    obtain r st4 where rs: "radius_search W la lo 5000 st3 = (r, st4)"
      by (cases "radius_search W la lo 5000 st3")
    with radius_search_all_raise [OF assms, of la lo 5000 st3] have r: "r = None" by simp
    show ?thesis
      using gc Some p bb hs rs r by (simp add: get_hospitals_def area parent)
  qed
qed

text \<open>
  What the search does after a stage whose query raised: after the named-area query, the
  geocoding and the stages behind it; after the bounding-box query, the radius stage; in
  the radius stage, the next radius, and behind 50 km the parent-area stage; after the
  district query, the empty list.
\<close>

lemma named_area_failure_continues:
  assumes "overpass W (calls st) (NamedArea area_name district) = None"
  shows "get_hospitals W country state district area_name st =
    (case get_coords W area_name district state country
            (log_call (OverpassQuery (NamedArea area_name district)) st) of
       (Some (la, lo), st2) \<Rightarrow>
         (case query_hospitals_in_bbox W la lo 0.045 st2 of
            (hospitals, st3) \<Rightarrow>
              if hospitals \<noteq> [] then (Inr hospitals, st3)
              else
                (case radius_search W la lo 5000 st3 of
                   (Some found, st4) \<Rightarrow> (Inr found, st4)
                 | (None, st4) \<Rightarrow> parent_area_fallback W state district area_name st4))
     | (None, st2) \<Rightarrow> parent_area_fallback W state district area_name st2)"
proof -
  have "query_hospitals_in_area W area_name district st =
      ([], log_call (OverpassQuery (NamedArea area_name district)) st)"
    using assms by (simp add: query_hospitals_in_area_def)
  then show ?thesis
    by (simp add: get_hospitals_def)
qed

lemma bbox_failure_continues:
  assumes "query_hospitals_in_area W area_name district st = ([], st1)"
    and "get_coords W area_name district state country st1 = (Some (la, lo), st2)"
    and "overpass W (calls st2) (BBox (la - 0.045) (lo - 0.045) (la + 0.045) (lo + 0.045)) = None"
  shows "get_hospitals W country state district area_name st =
    (case radius_search W la lo 5000
            (log_call (OverpassQuery (BBox (la - 0.045) (lo - 0.045) (la + 0.045) (lo + 0.045)))
               st2) of
       (Some found, st4) \<Rightarrow> (Inr found, st4)
     | (None, st4) \<Rightarrow> parent_area_fallback W state district area_name st4)"
proof -
  have "query_hospitals_in_bbox W la lo 0.045 st2 =
      ([], log_call (OverpassQuery (BBox (la - 0.045) (lo - 0.045) (la + 0.045) (lo + 0.045))) st2)"
    using assms(3) by (simp add: query_hospitals_in_bbox_def)
  with assms(1,2) show ?thesis
    by (simp add: get_hospitals_def)
qed

lemma radius_failure_continues:
  assumes "r \<le> 50000" and "overpass W (calls st) (Around r la lo) = None"
  shows "radius_search W la lo r st =
    radius_search W la lo (r + 5000) (log_call (OverpassQuery (Around r la lo)) st)"
proof -
  have "query_hospitals_around W la lo r st = ([], log_call (OverpassQuery (Around r la lo)) st)"
    using assms(2) by (simp add: query_hospitals_around_def)
  with assms(1) show ?thesis
    by (simp add: radius_search.simps [of W la lo r st])
qed

lemma radius_exhausted: "50000 < r \<Longrightarrow> radius_search W la lo r st = (None, st)"
  by (simp add: radius_search.simps [of W la lo r st])

lemma district_failure_is_empty:
  assumes "overpass W (calls st) (NamedArea district state) = None"
  shows "parent_area_fallback W state district area_name st =
    (Inr [], log_call (OverpassQuery (NamedArea district state)) st)"
  using assms by (simp add: parent_area_fallback_def query_hospitals_in_area_def)

text \<open>
  C5. If the backend raises, each of the three query functions returns the empty list (the
  call is logged and nothing propagates), and the search goes on with the next stage:
  \<open>get_hospitals\<close> behaves in every respect as if each failing query had answered with
  no node, and when every query fails it still ends with the empty list, not with an
  error. Stage by stage: when the named-area query raises, the result is that of the
  geocoding, bounding-box, radius and parent-area stages run from the state with the
  failed call logged; when the bounding-box query raises, it is that of the radius stage
  and what follows it; a radius query that raises hands over to the next radius, up to
  50 km, behind which the parent-area stage runs; and when the district query raises the
  search ends with the empty list.
\<close>

theorem backend_failure_is_empty_result:
  "(overpass W (calls st) (NamedArea a p) = None \<longrightarrow>
      query_hospitals_in_area W a p st = ([], log_call (OverpassQuery (NamedArea a p)) st))
   \<and> (overpass W (calls st) (BBox (la - delta) (lo - delta) (la + delta) (lo + delta)) = None \<longrightarrow>
      query_hospitals_in_bbox W la lo delta st =
        ([], log_call (OverpassQuery (BBox (la - delta) (lo - delta) (la + delta) (lo + delta))) st))
   \<and> (overpass W (calls st) (Around r la lo) = None \<longrightarrow>
      query_hospitals_around W la lo r st = ([], log_call (OverpassQuery (Around r la lo)) st))
   \<and> get_hospitals (empty_on_failure W) country state district area_name st =
       get_hospitals W country state district area_name st
   \<and> ((\<forall>tr q. overpass W tr q = None) \<longrightarrow>
       fst (get_hospitals W country state district area_name st) = Inr [])
   \<and> (overpass W (calls st) (NamedArea area_name district) = None \<longrightarrow>
       get_hospitals W country state district area_name st =
         (case get_coords W area_name district state country
                 (log_call (OverpassQuery (NamedArea area_name district)) st) of
            (Some (la', lo'), st2') \<Rightarrow>
              (case query_hospitals_in_bbox W la' lo' 0.045 st2' of
                 (hospitals, st3) \<Rightarrow>
                   if hospitals \<noteq> [] then (Inr hospitals, st3)
                   else
                     (case radius_search W la' lo' 5000 st3 of
                        (Some found, st4) \<Rightarrow> (Inr found, st4)
                      | (None, st4) \<Rightarrow> parent_area_fallback W state district area_name st4))
          | (None, st2') \<Rightarrow> parent_area_fallback W state district area_name st2'))
   \<and> (query_hospitals_in_area W area_name district st = ([], st1)
        \<and> get_coords W area_name district state country st1 = (Some (la2, lo2), st2)
        \<and> overpass W (calls st2) (BBox (la2 - 0.045) (lo2 - 0.045) (la2 + 0.045) (lo2 + 0.045)) = None
       \<longrightarrow>
       get_hospitals W country state district area_name st =
         (case radius_search W la2 lo2 5000
                 (log_call
                    (OverpassQuery (BBox (la2 - 0.045) (lo2 - 0.045) (la2 + 0.045) (lo2 + 0.045)))
                    st2) of
            (Some found, st4) \<Rightarrow> (Inr found, st4)
          | (None, st4) \<Rightarrow> parent_area_fallback W state district area_name st4))
   \<and> (r \<le> 50000 \<and> overpass W (calls st) (Around r la lo) = None \<longrightarrow>
       radius_search W la lo r st =
         radius_search W la lo (r + 5000) (log_call (OverpassQuery (Around r la lo)) st))
   \<and> (50000 < r \<longrightarrow> radius_search W la lo r st = (None, st))
   \<and> (overpass W (calls st) (NamedArea district state) = None \<longrightarrow>
       parent_area_fallback W state district area_name st =
         (Inr [], log_call (OverpassQuery (NamedArea district state)) st))"
proof -
  have "overpass W (calls st) (NamedArea a p) = None \<longrightarrow>
      query_hospitals_in_area W a p st = ([], log_call (OverpassQuery (NamedArea a p)) st)"
    by (simp add: query_hospitals_in_area_def)
  moreover have "overpass W (calls st) (BBox (la - delta) (lo - delta) (la + delta) (lo + delta)) = None \<longrightarrow>
      query_hospitals_in_bbox W la lo delta st =
        ([], log_call (OverpassQuery (BBox (la - delta) (lo - delta) (la + delta) (lo + delta))) st)"
    by (simp add: query_hospitals_in_bbox_def)
  moreover have "overpass W (calls st) (Around r la lo) = None \<longrightarrow>
      query_hospitals_around W la lo r st = ([], log_call (OverpassQuery (Around r la lo)) st)"
    by (simp add: query_hospitals_around_def)
  moreover have "get_hospitals (empty_on_failure W) country state district area_name st =
       get_hospitals W country state district area_name st"
    by (simp only: get_hospitals_empty_on_failure)
  moreover have "(\<forall>tr q. overpass W tr q = None) \<longrightarrow>
       fst (get_hospitals W country state district area_name st) = Inr []"
    using all_raise_empty by blast
  moreover note named_area_failure_continues [of W st area_name district country state]
    bbox_failure_continues [of W area_name district st st1 state country la2 lo2 st2]
    radius_failure_continues [of r W st la lo]
    radius_exhausted [of r W la lo st]
    district_failure_is_empty [of W st district state area_name]
  ultimately show ?thesis by blast
qed

theorem backend_failure_is_empty_result_witness:
  "overpass unreachable_world (calls initial_state) (NamedArea ''Shibuya'' ''Shibuya'') = None
   \<and> fst (query_hospitals_in_area unreachable_world ''Shibuya'' ''Shibuya'' initial_state) = []
   \<and> fst (query_hospitals_in_bbox unreachable_world 35 139 0.045 initial_state) = []
   \<and> fst (query_hospitals_around unreachable_world 35 139 5000 initial_state) = []
   \<and> fst (get_hospitals unreachable_world ''Japan'' ''Tokyo'' ''Shibuya'' ''Shibuya'' initial_state)
       = Inr []
   \<and> overpass_calls (calls (snd (get_hospitals unreachable_world ''Japan'' ''Tokyo'' ''Shibuya''
        ''Shibuya'' initial_state))) =
       [NamedArea ''Shibuya'' ''Shibuya'', BBox 34.955 138.955 35.045 139.045,
        Around 5000 35 139, Around 10000 35 139, Around 15000 35 139, Around 20000 35 139,
        Around 25000 35 139, Around 30000 35 139, Around 35000 35 139, Around 40000 35 139,
        Around 45000 35 139, Around 50000 35 139, NamedArea ''Shibuya'' ''Tokyo'']
   \<and> overpass area_down_world (calls initial_state) (NamedArea ''Shibuya'' ''Shibuya'') = None
   \<and> fst (get_hospitals area_down_world ''Japan'' ''Tokyo'' ''Shibuya'' ''Shibuya'' initial_state) =
       Inr [\<lparr>name = ''Clinic'', facility_type = ''hospital'', lat = 35.01, lon = 139,
              address = Some ''3 Line Rd'', found_in = ''bounding box'', distance = Some 1.11\<rparr>]
   \<and> overpass_calls (calls (snd (get_hospitals area_down_world ''Japan'' ''Tokyo'' ''Shibuya''
        ''Shibuya'' initial_state))) =
       [NamedArea ''Shibuya'' ''Shibuya'', BBox 34.955 138.955 35.045 139.045]
   \<and> fst (get_coords unreachable_world ''Shibuya'' ''Shibuya'' ''Tokyo'' ''Japan''
        (log_call (OverpassQuery (NamedArea ''Shibuya'' ''Shibuya'')) initial_state)) = Some (35, 139)
   \<and> radius_search unreachable_world 35 139 5000 initial_state =
       radius_search unreachable_world 35 139 10000
         (log_call (OverpassQuery (Around 5000 35 139)) initial_state)
   \<and> radius_search unreachable_world 35 139 55000 initial_state = (None, initial_state)
   \<and> parent_area_fallback unreachable_world ''Tokyo'' ''Shibuya'' ''Shibuya'' initial_state =
       (Inr [], log_call (OverpassQuery (NamedArea ''Shibuya'' ''Tokyo'')) initial_state)"
proof -
  have o: "overpass unreachable_world tr q = None" for tr q
    by (simp add: unreachable_world_def demo_world_def)
  have all: "\<forall>tr q. overpass unreachable_world tr q = None"
    using o by simp
  have g: "geocode unreachable_world tr x = GeocodeFound 35 139" for tr x
    by (simp add: unreachable_world_def demo_world_def)
  note t = backend_failure_is_empty_result
    [where W = unreachable_world and st = initial_state and a = "''Shibuya''" and p = "''Shibuya''"
       and la = 35 and lo = 139 and delta = "0.045" and r = 5000 and country = "''Japan''"
       and state = "''Tokyo''" and district = "''Shibuya''" and area_name = "''Shibuya''"]
  note q1 = t [THEN conjunct1, THEN mp, OF o]
  note q2 = t [THEN conjunct2, THEN conjunct1, THEN mp, OF o]
  note q3 = t [THEN conjunct2, THEN conjunct2, THEN conjunct1, THEN mp, OF o]
  note q5 = t [THEN conjunct2, THEN conjunct2, THEN conjunct2, THEN conjunct2, THEN conjunct1,
    THEN mp, OF all]
  have le: "(5000::int) \<le> 50000" by simp
  note q8 = t [THEN conjunct2, THEN conjunct2, THEN conjunct2, THEN conjunct2, THEN conjunct2,
    THEN conjunct2, THEN conjunct2, THEN conjunct1, THEN mp, OF conjI [OF le o]]
  note q10 = t [THEN conjunct2, THEN conjunct2, THEN conjunct2, THEN conjunct2, THEN conjunct2,
    THEN conjunct2, THEN conjunct2, THEN conjunct2, THEN conjunct2, THEN mp, OF o]
  have c1: "overpass unreachable_world (calls initial_state) (NamedArea ''Shibuya'' ''Shibuya'') = None"
    by (rule o)
  have c2: "fst (query_hospitals_in_area unreachable_world ''Shibuya'' ''Shibuya'' initial_state) = []"
    using q1 by simp
  have c3: "fst (query_hospitals_in_bbox unreachable_world 35 139 0.045 initial_state) = []"
    using q2 by simp
  have c4: "fst (query_hospitals_around unreachable_world 35 139 5000 initial_state) = []"
    using q3 by simp
  have c5: "fst (get_hospitals unreachable_world ''Japan'' ''Tokyo'' ''Shibuya'' ''Shibuya''
      initial_state) = Inr []"
    by (rule q5)
  have c6: "overpass_calls (calls (snd (get_hospitals unreachable_world ''Japan'' ''Tokyo'' ''Shibuya''
        ''Shibuya'' initial_state))) =
       [NamedArea ''Shibuya'' ''Shibuya'', BBox 34.955 138.955 35.045 139.045,
        Around 5000 35 139, Around 10000 35 139, Around 15000 35 139, Around 20000 35 139,
        Around 25000 35 139, Around 30000 35 139, Around 35000 35 139, Around 40000 35 139,
        Around 45000 35 139, Around 50000 35 139, NamedArea ''Shibuya'' ''Tokyo'']"
    by (simp add: get_hospitals_def query_hospitals_in_area_def query_hospitals_in_bbox_def
        query_hospitals_around_def radius_search.simps parent_area_fallback_def get_coords_def
        full_address_def log_call_def initial_state_def o g Let_def)
  have oa: "overpass area_down_world tr (NamedArea x y) = None" for tr x y
    by (simp add: area_down_world_def demo_world_def)
  have c7: "overpass area_down_world (calls initial_state) (NamedArea ''Shibuya'' ''Shibuya'') = None"
    by (rule oa)
  note cont = backend_failure_is_empty_result
    [where W = area_down_world and st = initial_state and country = "''Japan''"
       and state = "''Tokyo''" and district = "''Shibuya''" and area_name = "''Shibuya''",
     THEN conjunct2, THEN conjunct2, THEN conjunct2, THEN conjunct2, THEN conjunct2,
     THEN conjunct1, THEN mp, OF oa]
  have c8: "fst (get_hospitals area_down_world ''Japan'' ''Tokyo'' ''Shibuya'' ''Shibuya'' initial_state) =
       Inr [\<lparr>name = ''Clinic'', facility_type = ''hospital'', lat = 35.01, lon = 139,
              address = Some ''3 Line Rd'', found_in = ''bounding box'', distance = Some 1.11\<rparr>]"
    unfolding cont
    by (simp add: area_down_world_def demo_defs query_hospitals_in_bbox_def
        node_to_medical_facility_def make_facility_def node_address_def address_components_def
        truthy_str_def truthy_float_def get_coords_def full_address_def log_call_def
        initial_state_def Let_def)
  have c9: "overpass_calls (calls (snd (get_hospitals area_down_world ''Japan'' ''Tokyo'' ''Shibuya''
        ''Shibuya'' initial_state))) =
       [NamedArea ''Shibuya'' ''Shibuya'', BBox 34.955 138.955 35.045 139.045]"
    unfolding cont
    by (simp add: area_down_world_def demo_defs query_hospitals_in_bbox_def
        node_to_medical_facility_def make_facility_def node_address_def address_components_def
        truthy_str_def truthy_float_def get_coords_def full_address_def log_call_def
        initial_state_def Let_def)
  have c10: "fst (get_coords unreachable_world ''Shibuya'' ''Shibuya'' ''Tokyo'' ''Japan''
        (log_call (OverpassQuery (NamedArea ''Shibuya'' ''Shibuya'')) initial_state)) = Some (35, 139)"
    by (simp add: get_coords_def full_address_def log_call_def initial_state_def g Let_def)
  have c11: "radius_search unreachable_world 35 139 5000 initial_state =
       radius_search unreachable_world 35 139 10000
         (log_call (OverpassQuery (Around 5000 35 139)) initial_state)"
    using q8 by simp
  have gt: "(50000::int) < 55000" by simp
  note c12 = backend_failure_is_empty_result
    [where W = unreachable_world and st = initial_state and la = 35 and lo = 139 and r = 55000,
     THEN conjunct2, THEN conjunct2, THEN conjunct2, THEN conjunct2, THEN conjunct2,
     THEN conjunct2, THEN conjunct2, THEN conjunct2, THEN conjunct1, THEN mp, OF gt]
  note c13 = q10
  show ?thesis
    by (intro conjI) (rule c1 c2 c3 c4 c5 c6 c7 c8 c9 c10 c11 c12 c13)+
qed

subsection \<open>The address filter of the parent-area stage\<close>

lemma py_in_iff: "py_in xs ys \<longleftrightarrow> (\<exists>ps ss. ys = ps @ xs @ ss)"
proof (induction ys)
  case Nil
  then show ?case by auto
next
  case (Cons y ys)
  show ?case
  proof
    assume "py_in xs (y # ys)"
    then consider "prefix xs (y # ys)" | "py_in xs ys" by auto
    then show "\<exists>ps ss. y # ys = ps @ xs @ ss"
    proof cases
      case 1
      then obtain ss where "y # ys = xs @ ss" by (auto simp: prefix_def)
      then have "y # ys = [] @ xs @ ss" by simp
      then show ?thesis by blast
    next
      case 2
      with Cons.IH obtain ps ss where "ys = ps @ xs @ ss" by blast
      then have "y # ys = (y # ps) @ xs @ ss" by simp
      then show ?thesis by blast
    qed
  next
    assume "\<exists>ps ss. y # ys = ps @ xs @ ss"
    then obtain ps ss where eq: "y # ys = ps @ xs @ ss" by blast
    show "py_in xs (y # ys)"
    proof (cases ps)
      case Nil
      with eq have "prefix xs (y # ys)" by (simp add: prefix_def)
      then show ?thesis by simp
    next
      case (Cons p ps')
      with eq have "ys = ps' @ xs @ ss" by simp
      with Cons.IH have "py_in xs ys" by blast
      then show ?thesis by simp
    qed
  qed
qed

lemma filter_by_address_total:
  assumes "\<forall>h\<in>set hs. address h \<noteq> None"
  shows "filter_by_address W hs area_name =
    Inr (filter (\<lambda>h. \<exists>a ps ss. address h = Some a
                     \<and> str_lower W a = ps @ str_lower W area_name @ ss) hs)"
  using assms
proof (induction hs)
  case Nil
  then show ?case by simp
next
  case (Cons h hs)
  then obtain a where a: "address h = Some a" by auto
  from Cons have ih: "filter_by_address W hs area_name =
    Inr (filter (\<lambda>h. \<exists>a ps ss. address h = Some a
                     \<and> str_lower W a = ps @ str_lower W area_name @ ss) hs)"
    by simp
  have "py_in (str_lower W area_name) (str_lower W a) \<longleftrightarrow>
    (\<exists>a' ps ss. address h = Some a' \<and> str_lower W a' = ps @ str_lower W area_name @ ss)"
    using a by (simp add: py_in_iff)
  then show ?case
    using a ih by simp
qed

lemma filter_by_address_raises:
  assumes "\<exists>h\<in>set hs. address h = None"
  shows "filter_by_address W hs area_name = Inl AttributeError"
  using assms
proof (induction hs)
  case Nil
  then show ?case by simp
next
  case (Cons h hs)
  show ?case
  proof (cases "address h")
    case None
    then show ?thesis by simp
  next
    case (Some a)
    with Cons.prems have "\<exists>h\<in>set hs. address h = None" by auto
    with Cons.IH Some show ?thesis by simp
  qed
qed

text \<open>
  C4. Every list the parent-area stage produces holds exactly the facilities of the
  district query whose address contains the area name, both lower-cased, as a contiguous
  substring, in the order of the district query; all others are dropped. The stage
  produces such a list whenever every facility of the district query has an address; a
  facility whose address is \<open>None\<close> makes \<open>h["address"].lower()\<close> raise instead.
\<close>

theorem parent_area_filter_keeps_matching:
  assumes "query_hospitals_in_area W district state st = (parent_hospitals, st')"
  shows "(\<forall>kept. fst (parent_area_fallback W state district area_name st) = Inr kept \<longrightarrow>
            kept = filter (\<lambda>h. \<exists>a ps ss. address h = Some a
                     \<and> str_lower W a = ps @ str_lower W area_name @ ss) parent_hospitals)
    \<and> ((\<forall>h\<in>set parent_hospitals. address h \<noteq> None) \<longrightarrow>
          parent_area_fallback W state district area_name st =
            (Inr (filter (\<lambda>h. \<exists>a ps ss. address h = Some a
                     \<and> str_lower W a = ps @ str_lower W area_name @ ss) parent_hospitals), st'))
    \<and> ((\<exists>h\<in>set parent_hospitals. address h = None) \<longrightarrow>
          parent_area_fallback W state district area_name st = (Inl AttributeError, st'))"
proof (cases "\<forall>h\<in>set parent_hospitals. address h \<noteq> None")
  case True
  then show ?thesis
    using assms filter_by_address_total [OF True, of W area_name]
    by (auto simp add: parent_area_fallback_def)
next
  case False
  then have ex: "\<exists>h\<in>set parent_hospitals. address h = None" by auto
  show ?thesis
    using assms False filter_by_address_raises [OF ex, of W area_name]
    by (auto simp add: parent_area_fallback_def)
qed

theorem parent_area_filter_keeps_matching_witness:
  "map address (fst (query_hospitals_in_area district_world ''Shibuya'' ''Tokyo'' initial_state)) =
     [Some ''1 Jinnan'', Some ''5 Ebisu'', Some ''JINNAN 3'']
   \<and> map name (filter (\<lambda>h. \<exists>a ps ss. address h = Some a
                     \<and> str_lower district_world a = ps @ str_lower district_world ''Jinnan'' @ ss)
        (fst (query_hospitals_in_area district_world ''Shibuya'' ''Tokyo'' initial_state))) =
     [''Hospital A'', ''Pharmacy C'']"
proof -
  obtain hs st' where q: "query_hospitals_in_area district_world ''Shibuya'' ''Tokyo'' initial_state = (hs, st')"
    by (cases "query_hospitals_in_area district_world ''Shibuya'' ''Tokyo'' initial_state")
  have hs: "hs = fst (query_hospitals_in_area district_world ''Shibuya'' ''Tokyo'' initial_state)"
    using q by simp
  have addr: "map address hs = [Some ''1 Jinnan'', Some ''5 Ebisu'', Some ''JINNAN 3'']"
    unfolding hs by (simp add: district_world_def demo_defs model_defs)
  then have all: "\<forall>h\<in>set hs. address h \<noteq> None"
    by (metis (no_types, lifting) imageI list.set_map option.distinct(1) set_ConsD empty_iff empty_set)
  have ev: "map name (projr (fst (parent_area_fallback district_world ''Tokyo'' ''Shibuya'' ''Jinnan''
      initial_state))) = [''Hospital A'', ''Pharmacy C'']"
    by (simp add: district_world_def demo_defs model_defs)
  from parent_area_filter_keeps_matching [OF q, of "''Jinnan''"] all
  have "parent_area_fallback district_world ''Tokyo'' ''Shibuya'' ''Jinnan'' initial_state =
            (Inr (filter (\<lambda>h. \<exists>a ps ss. address h = Some a
                     \<and> str_lower district_world a = ps @ str_lower district_world ''Jinnan'' @ ss) hs), st')"
    by blast
  with ev addr show ?thesis unfolding hs by simp
qed

subsection \<open>The forward-geocoding cache\<close>

lemma quiet_refl: "quiet st st"
  by (simp add: quiet_def)

lemma quiet_trans: "quiet st st' \<Longrightarrow> quiet st' st'' \<Longrightarrow> quiet st st''"
  by (auto simp add: quiet_def)

lemma quiet_log_call: "geocode_calls [e] = [] \<Longrightarrow> quiet st (log_call e st)"
  by (simp add: quiet_def log_call_def)

lemma quiet_fetch_reverse_geocode: "quiet st (snd (fetch_reverse_geocode W k st))"
  by (simp add: quiet_def fetch_reverse_geocode_def Let_def split: option.splits)

lemma quiet_second_pass: "quiet st (snd (second_pass W cs fs st))"
proof (induction cs arbitrary: fs st)
  case Nil
  show ?case by (simp add: quiet_refl)
next
  case (Cons c cs)
  obtain k a st' where f: "fetch_reverse_geocode W c st = ((k, a), st')"
    by (metis prod.collapse)
  have "quiet st st'"
    using quiet_fetch_reverse_geocode [of st W c] f by simp
  moreover have "quiet st' (snd (second_pass W cs (apply_address k a fs) st'))"
    by (rule Cons.IH)
  ultimately show ?case
    using f by (simp add: quiet_trans)
qed

lemma quiet_node_to_medical_facility:
  "quiet st (snd (node_to_medical_facility W ns l rla rlo st))"
  by (simp add: node_to_medical_facility_def Let_def quiet_second_pass)

lemma quiet_query_hospitals_in_area: "quiet st (snd (query_hospitals_in_area W a p st))"
proof (cases "overpass W (calls st) (NamedArea a p)")
  case None
  then show ?thesis
    by (simp add: query_hospitals_in_area_def quiet_log_call)
next
  case (Some ns)
  have 1: "quiet st (log_call (OverpassQuery (NamedArea a p)) st)"
    by (simp add: quiet_log_call)
  have 2: "quiet (log_call (OverpassQuery (NamedArea a p)) st)
     (snd (node_to_medical_facility W ns a None None (log_call (OverpassQuery (NamedArea a p)) st)))"
    by (rule quiet_node_to_medical_facility)
  have "query_hospitals_in_area W a p st =
     node_to_medical_facility W ns a None None (log_call (OverpassQuery (NamedArea a p)) st)"
    using Some by (simp add: query_hospitals_in_area_def)
  then show ?thesis
    using quiet_trans [OF 1 2] by simp
qed

lemma quiet_query_hospitals_in_bbox: "quiet st (snd (query_hospitals_in_bbox W la lo dl st))"
proof (cases "overpass W (calls st) (BBox (la - dl) (lo - dl) (la + dl) (lo + dl))")
  case None
  then show ?thesis
    by (simp add: query_hospitals_in_bbox_def quiet_log_call)
next
  case (Some ns)
  let ?st1 = "log_call (OverpassQuery (BBox (la - dl) (lo - dl) (la + dl) (lo + dl))) st"
  have 1: "quiet st ?st1"
    by (simp add: quiet_log_call)
  have 2: "quiet ?st1 (snd (node_to_medical_facility W ns ''bounding box'' (Some la) (Some lo) ?st1))"
    by (rule quiet_node_to_medical_facility)
  have "query_hospitals_in_bbox W la lo dl st =
     node_to_medical_facility W ns ''bounding box'' (Some la) (Some lo) ?st1"
    using Some by (simp add: query_hospitals_in_bbox_def)
  then show ?thesis
    using quiet_trans [OF 1 2] by simp
qed

lemma quiet_query_hospitals_around: "quiet st (snd (query_hospitals_around W la lo r st))"
proof (cases "overpass W (calls st) (Around r la lo)")
  case None
  then show ?thesis
    by (simp add: query_hospitals_around_def quiet_log_call)
next
  case (Some ns)
  let ?st1 = "log_call (OverpassQuery (Around r la lo)) st"
  let ?e = "node_to_medical_facility W ns (''within '' @ str_float W (real_of_int r / 1000) @ '' km'')
        (Some la) (Some lo) ?st1"
  have 1: "quiet st ?st1"
    by (simp add: quiet_log_call)
  have 2: "quiet ?st1 (snd ?e)"
    by (rule quiet_node_to_medical_facility)
  have "snd (query_hospitals_around W la lo r st) = snd ?e"
    using Some by (simp add: query_hospitals_around_def split: prod.splits)
  then show ?thesis
    using quiet_trans [OF 1 2] by simp
qed

lemma quiet_radius_search: "quiet st (snd (radius_search W la lo r st))"
proof (induction W la lo r st rule: radius_search.induct)
  case (1 W la lo current_radius st)
  obtain hs st' where q: "query_hospitals_around W la lo current_radius st = (hs, st')"
    by (cases "query_hospitals_around W la lo current_radius st")
  have s: "quiet st st'"
    using quiet_query_hospitals_around [of st W la lo current_radius] q by simp
  show ?case
  proof (cases "current_radius \<le> 50000")
    case False
    then show ?thesis
      by (simp add: radius_search.simps [of W la lo current_radius st] quiet_refl)
  next
    case le: True
    show ?thesis
    proof (cases "hs = []")
      case True
      have ih: "quiet st' (snd (radius_search W la lo (current_radius + 5000) st'))"
        using "1.IH" [OF le q [symmetric]] True by simp
      have "radius_search W la lo current_radius st =
              radius_search W la lo (current_radius + 5000) st'"
        using le q True by (simp add: radius_search.simps [of W la lo current_radius st])
      then show ?thesis
        using quiet_trans [OF s ih] by simp
    next
      case False
      have "radius_search W la lo current_radius st = (Some (take 10 hs), st')"
        using le q False by (simp add: radius_search.simps [of W la lo current_radius st])
      then show ?thesis
        using s by simp
    qed
  qed
qed

lemma quiet_parent_area_fallback: "quiet st (snd (parent_area_fallback W s d a st))"
proof -
  obtain hs st' where q: "query_hospitals_in_area W d s st = (hs, st')"
    by (cases "query_hospitals_in_area W d s st")
  have "quiet st st'"
    using quiet_query_hospitals_in_area [of st W d s] q by simp
  moreover have "snd (parent_area_fallback W s d a st) = st'"
    using q by (simp add: parent_area_fallback_def split: sum.splits)
  ultimately show ?thesis by simp
qed

lemma geocode_calls_Nil_notin: "geocode_calls evs = [] \<Longrightarrow> Geocode a \<notin> set evs"
  by (induction evs rule: geocode_calls.induct) auto

lemma geocode_inv_quiet:
  assumes inv: "geocode_inv W st" and q: "quiet st st'"
  shows "geocode_inv W st'"
proof -
  from q obtain evs where calls: "calls st' = calls st @ evs"
    by (auto simp add: quiet_def prefix_def)
  with q have "geocode_calls evs = []"
    by (simp add: quiet_def)
  then have no: "\<And>a. Geocode a \<notin> set evs"
    by (rule geocode_calls_Nil_notin)
  from q have cache: "coords_cache st' = coords_cache st"
    by (simp add: quiet_def)
  show ?thesis
    unfolding geocode_inv_def
  proof (intro allI impI, elim conjE)
    fix i a la lo
    assume i: "i < length (calls st')"
      and ev: "calls st' ! i = Geocode a"
      and rep: "geocode W (take i (calls st')) a = GeocodeFound la lo"
    have old: "i < length (calls st)"
    proof (rule ccontr)
      assume "\<not> i < length (calls st)"
      with i calls have "calls st' ! i \<in> set evs"
        by (simp add: nth_append)
      with ev no show False by simp
    qed
    with calls ev rep have ev': "calls st ! i = Geocode a"
      and rep': "geocode W (take i (calls st)) a = GeocodeFound la lo"
      by (simp_all add: nth_append)
    from inv old ev' rep' have c: "coords_cache st a = Some (la, lo)"
      and later: "\<And>j. i < j \<Longrightarrow> j < length (calls st) \<Longrightarrow> calls st ! j \<noteq> Geocode a"
      unfolding geocode_inv_def by blast+
    show "coords_cache st' a = Some (la, lo)
      \<and> (\<forall>j. i < j \<and> j < length (calls st') \<longrightarrow> calls st' ! j \<noteq> Geocode a)"
    proof (intro conjI allI impI)
      show "coords_cache st' a = Some (la, lo)"
        using c cache by simp
    next
      fix j
      assume "i < j \<and> j < length (calls st')"
      then have ij: "i < j" and j: "j < length (calls st')" by simp_all
      show "calls st' ! j \<noteq> Geocode a"
      proof (cases "j < length (calls st)")
        case True
        with later [OF ij] calls show ?thesis by (simp add: nth_append)
      next
        case False
        with j calls have "calls st' ! j \<in> set evs"
          by (simp add: nth_append)
        with no show ?thesis by metis
      qed
    qed
  qed
qed

lemma geocode_inv_miss:
  assumes inv: "geocode_inv W st"
    and miss: "coords_cache st a0 = None"
    and calls: "calls st' = calls st @ [Geocode a0]"
    and other: "\<And>a. a \<noteq> a0 \<Longrightarrow> coords_cache st' a = coords_cache st a"
    and found: "\<And>la lo. geocode W (calls st) a0 = GeocodeFound la lo \<Longrightarrow>
                  coords_cache st' a0 = Some (la, lo)"
  shows "geocode_inv W st'"
  unfolding geocode_inv_def
proof (intro allI impI, elim conjE)
  fix i a la lo
  assume i: "i < length (calls st')"
    and ev: "calls st' ! i = Geocode a"
    and rep: "geocode W (take i (calls st')) a = GeocodeFound la lo"
  show "coords_cache st' a = Some (la, lo)
      \<and> (\<forall>j. i < j \<and> j < length (calls st') \<longrightarrow> calls st' ! j \<noteq> Geocode a)"
  proof (cases "i < length (calls st)")
    case True
    with calls ev rep have ev': "calls st ! i = Geocode a"
      and rep': "geocode W (take i (calls st)) a = GeocodeFound la lo"
      by (simp_all add: nth_append)
    from inv True ev' rep' have c: "coords_cache st a = Some (la, lo)"
      and later: "\<And>j. i < j \<Longrightarrow> j < length (calls st) \<Longrightarrow> calls st ! j \<noteq> Geocode a"
      unfolding geocode_inv_def by blast+
    from c miss have ne: "a \<noteq> a0" by auto
    show ?thesis
    proof (intro conjI allI impI)
      show "coords_cache st' a = Some (la, lo)"
        using other [OF ne] c by simp
    next
      fix j
      assume "i < j \<and> j < length (calls st')"
      then have ij: "i < j" and j: "j < length (calls st')" by simp_all
      show "calls st' ! j \<noteq> Geocode a"
      proof (cases "j < length (calls st)")
        case True
        with later [OF ij] calls show ?thesis by (simp add: nth_append)
      next
        case False
        with j calls have "calls st' ! j = Geocode a0"
          by (simp add: nth_append)
        with ne show ?thesis by simp
      qed
    qed
  next
    case False
    with i calls have eq: "i = length (calls st)" by simp
    with calls ev have a: "a = a0" by simp
    from eq calls rep a have "geocode W (calls st) a0 = GeocodeFound la lo" by simp
    then have "coords_cache st' a0 = Some (la, lo)" by (rule found)
    moreover have "\<not> (i < j \<and> j < length (calls st'))" for j
      using eq calls by simp
    ultimately show ?thesis using a by blast
  qed
qed

lemma geocode_inv_get_coords:
  assumes "geocode_inv W st"
  shows "geocode_inv W (snd (get_coords W ar d s c st))"
proof (cases "coords_cache st (full_address ar d s c)")
  case (Some xy)
  then show ?thesis
    using assms by (simp add: get_coords_def Let_def)
next
  case None
  show ?thesis
  proof (rule geocode_inv_miss [OF assms None])
    show "calls (snd (get_coords W ar d s c st)) = calls st @ [Geocode (full_address ar d s c)]"
      using None by (simp add: get_coords_def Let_def log_call_def split: geocode_reply.splits)
  next
    fix a
    assume "a \<noteq> full_address ar d s c"
    then show "coords_cache (snd (get_coords W ar d s c st)) a = coords_cache st a"
      using None by (simp add: get_coords_def Let_def log_call_def split: geocode_reply.splits)
  next
    fix la lo
    assume "geocode W (calls st) (full_address ar d s c) = GeocodeFound la lo"
    then show "coords_cache (snd (get_coords W ar d s c st)) (full_address ar d s c) = Some (la, lo)"
      using None by (simp add: get_coords_def Let_def)
  qed
qed

lemma geocode_inv_get_hospitals:
  assumes inv: "geocode_inv W st"
  shows "geocode_inv W (snd (get_hospitals W c s d a st))"
proof -
  obtain hs st1 where q1: "query_hospitals_in_area W a d st = (hs, st1)"
    by (cases "query_hospitals_in_area W a d st")
  have i1: "geocode_inv W st1"
    using geocode_inv_quiet [OF inv quiet_query_hospitals_in_area [of st W a d]] q1 by simp
  obtain co st2 where gc: "get_coords W a d s c st1 = (co, st2)"
    by (cases "get_coords W a d s c st1")
  have i2: "geocode_inv W st2"
    using geocode_inv_get_coords [OF i1, of a d s c] gc by simp
  have par: "geocode_inv W (snd (parent_area_fallback W s d a t))" if "geocode_inv W t" for t
    using geocode_inv_quiet [OF that quiet_parent_area_fallback] .
  show ?thesis
  proof (cases "hs = []")
    case False
    with q1 i1 show ?thesis by (simp add: get_hospitals_def)
  next
    case hs: True
    show ?thesis
    proof (cases co)
      case None
      with q1 hs gc par [OF i2] show ?thesis by (simp add: get_hospitals_def)
    next
      case (Some p)
      obtain la lo where p: "p = (la, lo)" by (cases p)
      obtain bs st3 where bb: "query_hospitals_in_bbox W la lo 0.045 st2 = (bs, st3)"
        by (cases "query_hospitals_in_bbox W la lo 0.045 st2")
      have i3: "geocode_inv W st3"
        using geocode_inv_quiet [OF i2 quiet_query_hospitals_in_bbox [of st2 W la lo "0.045"]] bb
        by simp
      obtain r st4 where rs: "radius_search W la lo 5000 st3 = (r, st4)"
        by (cases "radius_search W la lo 5000 st3")
      have i4: "geocode_inv W st4"
        using geocode_inv_quiet [OF i3 quiet_radius_search [of st3 W la lo 5000]] rs by simp
      show ?thesis
        using q1 hs gc Some p bb rs i3 i4 par [OF i4]
        by (cases "bs = []"; cases r) (simp_all add: get_hospitals_def)
    qed
  qed
qed

lemma geocode_inv_initial: "geocode_inv W initial_state"
  by (simp add: geocode_inv_def initial_state_def)

lemma geocode_inv_serve: "geocode_inv W st \<Longrightarrow> geocode_inv W (serve W r st)"
  by (cases r) (simp_all add: geocode_inv_get_coords geocode_inv_get_hospitals)

lemma geocode_inv_run: "geocode_inv W st \<Longrightarrow> geocode_inv W (run W rs st)"
  by (induction rs arbitrary: st) (simp_all add: geocode_inv_serve)

text \<open>
  C7, as the code has it. In every sequence of forward-geocode requests and searches
  served from the start of the process, once a call of the geocoding service for an
  address has returned a location, the service is never called for that address again:
  the location is cached and every repeated identical request is answered from the cache,
  leaving the state as it is. A call that raises or finds no match is not cached.
\<close>

theorem geocode_once_after_success:
  assumes "st = run W requests initial_state"
    and "i < j" and "j < length (calls st)"
    and "calls st ! i = Geocode a"
    and "geocode W (take i (calls st)) a = GeocodeFound la lo"
  shows "calls st ! j \<noteq> Geocode a
    \<and> coords_cache st a = Some (la, lo)
    \<and> (\<forall>area_name district state country.
          full_address area_name district state country = a \<longrightarrow>
          get_coords W area_name district state country st = (Some (la, lo), st))"
proof -
  have inv: "geocode_inv W st"
    using assms(1) geocode_inv_run [OF geocode_inv_initial] by simp
  have i: "i < length (calls st)"
    using assms(2,3) by simp
  from inv i assms(4,5) have c: "coords_cache st a = Some (la, lo)"
    and later: "\<And>j. i < j \<Longrightarrow> j < length (calls st) \<Longrightarrow> calls st ! j \<noteq> Geocode a"
    unfolding geocode_inv_def by blast+
  from c have "\<forall>area_name district state country.
          full_address area_name district state country = a \<longrightarrow>
          get_coords W area_name district state country st = (Some (la, lo), st)"
    by (auto simp add: get_coords_def Let_def)
  with c later [OF assms(2,3)] show ?thesis by simp
qed

theorem geocode_once_after_success_witness:
  "calls (run flaky_geocoder_world flaky_requests initial_state) =
     [Geocode ''Jinnan, Shibuya, Tokyo, Japan'', Geocode ''Jinnan, Shibuya, Tokyo, Japan'',
      Geocode ''Ebisu, Shibuya, Tokyo, Japan'']
   \<and> geocode flaky_geocoder_world
        (take 1 (calls (run flaky_geocoder_world flaky_requests initial_state)))
        ''Jinnan, Shibuya, Tokyo, Japan'' = GeocodeFound 35 139
   \<and> calls (run flaky_geocoder_world flaky_requests initial_state) ! 2
        \<noteq> Geocode ''Jinnan, Shibuya, Tokyo, Japan''
   \<and> coords_cache (run flaky_geocoder_world flaky_requests initial_state)
        ''Jinnan, Shibuya, Tokyo, Japan'' = Some (35, 139)
   \<and> fst (get_coords flaky_geocoder_world ''Jinnan'' ''Shibuya'' ''Tokyo'' ''Japan''
        (run flaky_geocoder_world flaky_requests initial_state)) = Some (35, 139)"
proof -
  let ?st = "run flaky_geocoder_world flaky_requests initial_state"
  have g: "geocode flaky_geocoder_world tr a =
      (if geocode_calls tr = [] then GeocodeRaises else GeocodeFound 35 139)" for tr a
    by (simp add: flaky_geocoder_world_def demo_world_def)
  have c: "calls ?st =
     [Geocode ''Jinnan, Shibuya, Tokyo, Japan'', Geocode ''Jinnan, Shibuya, Tokyo, Japan'',
      Geocode ''Ebisu, Shibuya, Tokyo, Japan'']"
    by (simp add: flaky_requests_def get_coords_def full_address_def log_call_def
        initial_state_def Let_def g)
  have r: "geocode flaky_geocoder_world (take 1 (calls ?st)) ''Jinnan, Shibuya, Tokyo, Japan''
      = GeocodeFound 35 139"
    by (simp add: c g)
  have f: "full_address ''Jinnan'' ''Shibuya'' ''Tokyo'' ''Japan'' = ''Jinnan, Shibuya, Tokyo, Japan''"
    by (simp add: full_address_def)
  have i: "calls ?st ! 1 = Geocode ''Jinnan, Shibuya, Tokyo, Japan''"
    by (simp add: c)
  have j: "2 < length (calls ?st)"
    by (simp add: c)
  from geocode_once_after_success [OF refl _ j i r] f
  have "calls ?st ! 2 \<noteq> Geocode ''Jinnan, Shibuya, Tokyo, Japan''
    \<and> coords_cache ?st ''Jinnan, Shibuya, Tokyo, Japan'' = Some (35, 139)
    \<and> get_coords flaky_geocoder_world ''Jinnan'' ''Shibuya'' ''Tokyo'' ''Japan'' ?st
        = (Some (35, 139), ?st)"
    by simp
  with c r show ?thesis by simp
qed

text \<open>
  The claim as stated fails: the geocoder finds no match, nothing is cached, and the same
  request made twice calls the service twice.
\<close>

theorem failed_geocode_is_repeated:
  "geocode_calls (calls (run district_world
      [GetCoords ''Jinnan'' ''Shibuya'' ''Tokyo'' ''Japan'',
       GetCoords ''Jinnan'' ''Shibuya'' ''Tokyo'' ''Japan''] initial_state)) =
     [''Jinnan, Shibuya, Tokyo, Japan'', ''Jinnan, Shibuya, Tokyo, Japan'']
   \<and> \<not> count_list (geocode_calls (calls (run district_world
      [GetCoords ''Jinnan'' ''Shibuya'' ''Tokyo'' ''Japan'',
       GetCoords ''Jinnan'' ''Shibuya'' ''Tokyo'' ''Japan''] initial_state)))
        ''Jinnan, Shibuya, Tokyo, Japan'' \<le> 1"
proof -
  have g: "geocode district_world tr a = GeocodeNoMatch" for tr a
    by (simp add: district_world_def demo_world_def)
  have "geocode_calls (calls (run district_world
      [GetCoords ''Jinnan'' ''Shibuya'' ''Tokyo'' ''Japan'',
       GetCoords ''Jinnan'' ''Shibuya'' ''Tokyo'' ''Japan''] initial_state)) =
     [''Jinnan, Shibuya, Tokyo, Japan'', ''Jinnan, Shibuya, Tokyo, Japan'']"
    by (simp add: get_coords_def full_address_def log_call_def initial_state_def Let_def g)
  then show ?thesis by simp
qed

text \<open>
  In general: a call that finds no match or raises leaves the cache as it was, and the same
  request made again calls the service again.
\<close>

lemma failed_geocode_not_cached:
  assumes "coords_cache st (full_address area_name district state country) = None"
    and "geocode W (calls st) (full_address area_name district state country) = GeocodeNoMatch
         \<or> geocode W (calls st) (full_address area_name district state country) = GeocodeRaises"
  shows "get_coords W area_name district state country st =
           (None, log_call (Geocode (full_address area_name district state country)) st)"
    and "calls (snd (get_coords W area_name district state country
            (log_call (Geocode (full_address area_name district state country)) st))) =
           calls st @ [Geocode (full_address area_name district state country),
                       Geocode (full_address area_name district state country)]"
proof -
  show "get_coords W area_name district state country st =
           (None, log_call (Geocode (full_address area_name district state country)) st)"
    using assms by (auto simp add: get_coords_def Let_def)
  have "coords_cache (log_call (Geocode (full_address area_name district state country)) st)
      (full_address area_name district state country) = None"
    using assms(1) by (simp add: log_call_def)
  then show "calls (snd (get_coords W area_name district state country
            (log_call (Geocode (full_address area_name district state country)) st))) =
           calls st @ [Geocode (full_address area_name district state country),
                       Geocode (full_address area_name district state country)]"
    by (simp add: get_coords_def Let_def log_call_def split: geocode_reply.splits)
qed

subsection \<open>Addresses from reverse geocoding\<close>

lemma join_nonempty: "xs \<noteq> [] \<Longrightarrow> hd xs \<noteq> [] \<Longrightarrow> join sep xs \<noteq> []"
  by (induction sep xs rule: join.induct) simp_all

lemma node_address_not_empty: "node_address n \<noteq> Some []"
proof -
  let ?ks = "filter (\<lambda>k. truthy_str (node_tags n k)) address_components"
  let ?cs = "map (\<lambda>k. the (node_tags n k)) ?ks"
  have "join '', '' ?cs \<noteq> []" if ne: "?cs \<noteq> []"
  proof (rule join_nonempty [OF ne])
    from ne obtain k ks where ks: "?ks = k # ks" by (cases ?ks) auto
    then have "k \<in> set ?ks" by simp
    then have "truthy_str (node_tags n k)" by simp
    then have "the (node_tags n k) \<noteq> []"
      by (auto simp add: truthy_str_def split: option.splits)
    with ks show "hd ?cs \<noteq> []" by simp
  qed
  then show ?thesis
    by (auto simp add: node_address_def Let_def truthy_str_def split: option.splits)
qed

lemma truthy_node_address: "truthy_str (node_address n) \<longleftrightarrow> node_address n \<noteq> None"
  using node_address_not_empty [of n]
  by (auto simp add: truthy_str_def split: option.splits)

lemma apply_address_length [simp]: "length (apply_address k a fs) = length fs"
  by (induction fs) auto

lemma apply_address_lat_lon:
  "i < length fs \<Longrightarrow>
     lat (apply_address k a fs ! i) = lat (fs ! i) \<and> lon (apply_address k a fs ! i) = lon (fs ! i)"
  by (induction fs arbitrary: i) (auto simp add: nth_Cons split: nat.splits)

lemma apply_address_other:
  "i < length fs \<Longrightarrow> (lat (fs ! i), lon (fs ! i)) \<noteq> k \<Longrightarrow> apply_address k a fs ! i = fs ! i"
  by (induction fs arbitrary: i) (auto simp add: nth_Cons split: nat.splits)

lemma apply_address_first:
  "i < length fs \<Longrightarrow> (lat (fs ! i), lon (fs ! i)) = k \<Longrightarrow>
   \<forall>j<i. (lat (fs ! j), lon (fs ! j)) \<noteq> k \<Longrightarrow>
   apply_address k a fs ! i = (fs ! i)\<lparr>address := Some a\<rparr>"
proof (induction fs arbitrary: i)
  case Nil
  then show ?case by simp
next
  case (Cons f fs)
  show ?case
  proof (cases i)
    case 0
    with Cons.prems show ?thesis by simp
  next
    case (Suc m)
    with Cons.prems have f: "(lat f, lon f) \<noteq> k" by auto
    have "\<forall>j<m. (lat (fs ! j), lon (fs ! j)) \<noteq> k"
      using Cons.prems(3) Suc by auto
    with Cons.IH [of m] Cons.prems(1,2) Suc have "apply_address k a fs ! m = (fs ! m)\<lparr>address := Some a\<rparr>"
      by simp
    with f Suc show ?thesis by simp
  qed
qed

lemma fetch_reverse_geocode_key: "fst (fst (fetch_reverse_geocode W k st)) = k"
  by (simp add: fetch_reverse_geocode_def Let_def split: option.splits)

lemma fetch_reverse_geocode_cache_other:
  "k' \<noteq> k \<Longrightarrow> reverse_cache (snd (fetch_reverse_geocode W k st)) k' = reverse_cache st k'"
  by (simp add: fetch_reverse_geocode_def Let_def split: option.splits)

lemma fetch_reverse_geocode_cache_key:
  "reverse_cache (snd (fetch_reverse_geocode W k st)) k = Some (snd (fst (fetch_reverse_geocode W k st)))"
  by (simp add: fetch_reverse_geocode_def Let_def split: option.splits)

lemma fetch_reverse_geocode_hit:
  "reverse_cache st k = Some c \<Longrightarrow> fetch_reverse_geocode W k st = ((k, c), st)"
  by (simp add: fetch_reverse_geocode_def)

lemma fetch_reverse_geocode_miss:
  "reverse_cache st k = None \<Longrightarrow>
     snd (fst (fetch_reverse_geocode W k st)) = reverse_address W k (reverse_geocode W (calls st) k)
     \<and> calls (snd (fetch_reverse_geocode W k st)) = calls st @ [ReverseGeocode k]"
  by (simp add: fetch_reverse_geocode_def Let_def)

lemma second_pass_length [simp]: "length (fst (second_pass W cs fs st)) = length fs"
  by (induction cs arbitrary: fs st) (auto split: prod.splits)

lemma second_pass_untouched:
  "i < length fs \<Longrightarrow> (lat (fs ! i), lon (fs ! i)) \<notin> set cs \<Longrightarrow>
     fst (second_pass W cs fs st) ! i = fs ! i"
proof (induction cs arbitrary: fs st)
  case Nil
  then show ?case by simp
next
  case (Cons c cs)
  obtain k a st1 where f: "fetch_reverse_geocode W c st = ((k, a), st1)"
    by (metis prod.collapse)
  with fetch_reverse_geocode_key [of W c st] have k: "k = c" by simp
  from Cons.prems have ne: "(lat (fs ! i), lon (fs ! i)) \<noteq> c"
    and notin: "(lat (fs ! i), lon (fs ! i)) \<notin> set cs" by auto
  have same: "apply_address c a fs ! i = fs ! i"
    using apply_address_other [OF Cons.prems(1) ne] .
  then have "(lat (apply_address c a fs ! i), lon (apply_address c a fs ! i)) \<notin> set cs"
    using notin by simp
  with Cons.IH [of "apply_address c a fs" st1] Cons.prems(1)
  have "fst (second_pass W cs (apply_address c a fs) st1) ! i = apply_address c a fs ! i"
    by simp
  with f k same show ?case by simp
qed

lemma second_pass_cache_other:
  "k \<notin> set cs \<Longrightarrow> reverse_cache (snd (second_pass W cs fs st)) k = reverse_cache st k"
proof (induction cs arbitrary: fs st)
  case Nil
  then show ?case by simp
next
  case (Cons c cs)
  obtain k' a st1 where f: "fetch_reverse_geocode W c st = ((k', a), st1)"
    by (metis prod.collapse)
  from Cons.prems have "k \<noteq> c" and "k \<notin> set cs" by auto
  with Cons.IH [of "apply_address k' a fs" st1]
    fetch_reverse_geocode_cache_other [of k c W st] f
  show ?case by simp
qed

lemma second_pass_append:
  "second_pass W (xs @ ys) fs st =
     (case second_pass W xs fs st of (fs', st') \<Rightarrow> second_pass W ys fs' st')"
  by (induction xs arbitrary: fs st) (auto split: prod.splits)

lemma second_pass_calls_prefix: "prefix (calls st) (calls (snd (second_pass W cs fs st)))"
  using quiet_second_pass [of st W cs fs] by (simp add: quiet_def)

lemma second_pass_lat_lon:
  "i < length fs \<Longrightarrow>
     lat (fst (second_pass W cs fs st) ! i) = lat (fs ! i)
     \<and> lon (fst (second_pass W cs fs st) ! i) = lon (fs ! i)"
proof (induction cs arbitrary: fs st)
  case Nil
  then show ?case by simp
next
  case (Cons c cs)
  obtain k a st1 where f: "fetch_reverse_geocode W c st = ((k, a), st1)"
    by (metis prod.collapse)
  from Cons.IH [of "apply_address k a fs" st1] Cons.prems apply_address_lat_lon [OF Cons.prems, of k a]
  show ?case using f by simp
qed

lemma second_pass_fills:
  assumes cs: "cs = pre @ k # post" and pre: "k \<notin> set pre" and post: "k \<notin> set post"
    and i: "i < length fs" and ki: "(lat (fs ! i), lon (fs ! i)) = k"
    and uniq: "\<forall>j<length fs. j \<noteq> i \<longrightarrow> (lat (fs ! j), lon (fs ! j)) \<noteq> k"
    and res: "second_pass W cs fs st = (fs', st')"
  shows "\<exists>a. address (fs' ! i) = Some a \<and> reverse_cache st' k = Some a \<and>
    (case reverse_cache st k of
       Some cached \<Rightarrow> a = cached
     | None \<Rightarrow> \<exists>before after. calls st' = before @ ReverseGeocode k # after
                  \<and> a = reverse_address W k (reverse_geocode W before k))"
proof -
  obtain fs1 st1 where p1: "second_pass W pre fs st = (fs1, st1)"
    by (cases "second_pass W pre fs st")
  obtain k' a st2 where f0: "fetch_reverse_geocode W k st1 = ((k', a), st2)"
    by (metis prod.collapse)
  with fetch_reverse_geocode_key [of W k st1] have "k' = k" by simp
  with f0 have f: "fetch_reverse_geocode W k st1 = ((k, a), st2)" by simp
  let ?fs2 = "apply_address k a fs1"
  have p2: "second_pass W post ?fs2 st2 = (fs', st')"
    using res cs p1 f by (simp add: second_pass_append)
  have len1: "length fs1 = length fs"
    using second_pass_length [of W pre fs st] p1 by simp
  have co1: "(lat (fs1 ! j), lon (fs1 ! j)) = (lat (fs ! j), lon (fs ! j))" if "j < length fs" for j
    using second_pass_lat_lon [OF that, of W pre st] p1 by simp
  have i1: "i < length fs1" using i len1 by simp
  have ki1: "(lat (fs1 ! i), lon (fs1 ! i)) = k" using co1 [OF i] ki by simp
  have first: "\<forall>j<i. (lat (fs1 ! j), lon (fs1 ! j)) \<noteq> k"
  proof (intro allI impI)
    fix j assume "j < i"
    with i have "j < length fs" and "j \<noteq> i" by simp_all
    with uniq co1 [of j] show "(lat (fs1 ! j), lon (fs1 ! j)) \<noteq> k" by simp
  qed
  have a2: "?fs2 ! i = (fs1 ! i)\<lparr>address := Some a\<rparr>"
    by (rule apply_address_first [OF i1 ki1 first])
  have i2: "i < length ?fs2" using i1 by simp
  have "(lat (?fs2 ! i), lon (?fs2 ! i)) = k" using a2 ki1 by simp
  with post have "(lat (?fs2 ! i), lon (?fs2 ! i)) \<notin> set post" by simp
  from second_pass_untouched [OF i2 this, of W st2] p2 have "fs' ! i = ?fs2 ! i" by simp
  with a2 have addr: "address (fs' ! i) = Some a" by simp
  have c2: "reverse_cache st2 k = Some a"
    using fetch_reverse_geocode_cache_key [of W k st1] f by simp
  have c': "reverse_cache st' k = Some a"
    using second_pass_cache_other [OF post, of W ?fs2 st2] p2 c2 by simp
  have c1: "reverse_cache st1 k = reverse_cache st k"
    using second_pass_cache_other [OF pre, of W fs st] p1 by simp
  have "case reverse_cache st k of
       Some cached \<Rightarrow> a = cached
     | None \<Rightarrow> \<exists>before after. calls st' = before @ ReverseGeocode k # after
                  \<and> a = reverse_address W k (reverse_geocode W before k)"
  proof (cases "reverse_cache st k")
    case (Some c)
    with c1 fetch_reverse_geocode_hit [of st1 k c W] f show ?thesis by simp
  next
    case None
    with c1 have "reverse_cache st1 k = None" by simp
    from fetch_reverse_geocode_miss [OF this, of W] f
    have a: "a = reverse_address W k (reverse_geocode W (calls st1) k)"
      and calls2: "calls st2 = calls st1 @ [ReverseGeocode k]" by simp_all
    from second_pass_calls_prefix [of st2 W post ?fs2] p2
    obtain after where "calls st' = calls st2 @ after"
      by (auto simp add: prefix_def)
    with calls2 have "calls st' = calls st1 @ ReverseGeocode k # after" by simp
    with a None show ?thesis by auto
  qed
  with addr c' show ?thesis by blast
qed

text \<open>
  C6, as the code has it. Take a node with no address derivable from its tags whose
  coordinate pair no other node of the batch has. After enrichment its address is a
  string, the one the reverse cache then holds for its coordinate pair: the entry cached
  before the batch if there was one; otherwise what \<open>reverse_address\<close> makes of the
  reverse geocoder's reply to the logged call, that is the address found, the text
  \<open>Address not found\<close> when there is no match, or \<open>Coordinates: (lat, lon)\<close> when the call
  raises.
\<close>

theorem missing_address_filled:
  assumes res: "node_to_medical_facility W nodes label ref_lat ref_lon st = (facilities, st')"
    and i: "i < length nodes"
    and none: "node_address (nodes ! i) = None"
    and uniq: "\<forall>j<length nodes. j \<noteq> i \<longrightarrow>
        (node_lat (nodes ! j), node_lon (nodes ! j)) \<noteq> (node_lat (nodes ! i), node_lon (nodes ! i))"
    and key: "key = (node_lat (nodes ! i), node_lon (nodes ! i))"
  shows "\<exists>a. address (facilities ! i) = Some a \<and> reverse_cache st' key = Some a \<and>
    (case reverse_cache st key of
       Some cached \<Rightarrow> a = cached
     | None \<Rightarrow> \<exists>before after. calls st' = before @ ReverseGeocode key # after
                  \<and> a = reverse_address W key (reverse_geocode W before key))"
proof -
  let ?fs = "map (make_facility W label ref_lat ref_lon) nodes"
  let ?P = "\<lambda>f. \<not> truthy_str (address f)"
  let ?c = "\<lambda>f. (lat f, lon f)"
  have len: "length ?fs = length nodes" by simp
  have co: "?c (?fs ! j) = (node_lat (nodes ! j), node_lon (nodes ! j))" if "j < length nodes" for j
    using that by (simp add: make_facility_def)
  have Pi: "?P (?fs ! i)"
    using i none by (simp add: make_facility_def truthy_str_def)
  have split: "?fs = take i ?fs @ ?fs ! i # drop (Suc i) ?fs"
    by (rule id_take_nth_drop) (simp add: i)
  let ?pre = "map ?c (filter ?P (take i ?fs))"
  let ?post = "map ?c (filter ?P (drop (Suc i) ?fs))"
  have "filter ?P ?fs = filter ?P (take i ?fs) @ ?fs ! i # filter ?P (drop (Suc i) ?fs)"
    using Pi by (subst split) simp
  then have cs: "map ?c (filter ?P ?fs) = ?pre @ key # ?post"
    using co [OF i] key by simp
  have others: "?c f \<noteq> key" if "f \<in> set (take i ?fs) \<union> set (drop (Suc i) ?fs)" for f
  proof -
    from that obtain j where "j < length nodes" and "j \<noteq> i" and "f = ?fs ! j"
    proof
      assume "f \<in> set (take i ?fs)"
      then obtain m where "m < length (take i ?fs)" and "take i ?fs ! m = f"
        by (auto simp add: in_set_conv_nth)
      then have "m < length nodes" "m \<noteq> i" "f = ?fs ! m" using i by auto
      then show ?thesis using that by blast
    next
      assume "f \<in> set (drop (Suc i) ?fs)"
      then obtain m where m: "m < length (drop (Suc i) ?fs)" and "drop (Suc i) ?fs ! m = f"
        by (auto simp add: in_set_conv_nth)
      then have "Suc i + m < length nodes" "Suc i + m \<noteq> i" "f = ?fs ! (Suc i + m)" by auto
      then show ?thesis using that by blast
    qed
    with uniq co [of j] key show ?thesis by simp
  qed
  have pre: "key \<notin> set ?pre" using others by auto
  have post: "key \<notin> set ?post" using others by auto
  have ki: "?c (?fs ! i) = key" using co [OF i] key by simp
  have u: "\<forall>j<length ?fs. j \<noteq> i \<longrightarrow> ?c (?fs ! j) \<noteq> key"
    using uniq co key by simp
  have sp: "second_pass W (map ?c (filter ?P ?fs)) ?fs st = (facilities, st')"
    using res by (simp add: node_to_medical_facility_def Let_def)
  from i have i': "i < length ?fs" by simp
  show ?thesis
    by (rule second_pass_fills [OF cs pre post i' ki u sp])
qed

theorem missing_address_filled_witness:
  "node_address (clinic_nodes ! 1) = None
   \<and> distinct (map (\<lambda>n. (node_lat n, node_lon n)) clinic_nodes)
   \<and> reverse_cache initial_state (35, 139) = None
   \<and> address (fst (node_to_medical_facility shibuya_world clinic_nodes ''Shibuya'' None None
         initial_state) ! 1) = Some ''2 Udagawacho''
   \<and> reverse_cache (snd (node_to_medical_facility shibuya_world clinic_nodes ''Shibuya'' None None
         initial_state)) (35, 139) = Some ''2 Udagawacho''"
proof -
  let ?r = "node_to_medical_facility shibuya_world clinic_nodes ''Shibuya'' None None initial_state"
  have n: "node_address (clinic_nodes ! 1) = None"
    by (simp add: clinic_nodes_def demo_node_def node_address_def address_components_def
        truthy_str_def)
  have d: "distinct (map (\<lambda>n. (node_lat n, node_lon n)) clinic_nodes)"
    by (simp add: clinic_nodes_def demo_node_def)
  have u: "\<forall>j<length clinic_nodes. j \<noteq> 1 \<longrightarrow>
        (node_lat (clinic_nodes ! j), node_lon (clinic_nodes ! j))
          \<noteq> (node_lat (clinic_nodes ! 1), node_lon (clinic_nodes ! 1))"
    by (auto simp add: clinic_nodes_def demo_node_def nth_Cons less_Suc_eq numeral_3_eq_3
        split: nat.splits)
  have k: "(35, 139) = (node_lat (clinic_nodes ! 1), node_lon (clinic_nodes ! 1))"
    by (simp add: clinic_nodes_def demo_node_def)
  have c0: "reverse_cache initial_state (35, 139) = None"
    by (simp add: initial_state_def)
  have c: "reverse_cache (snd ?r) (35, 139) = Some ''2 Udagawacho''"
    by (simp add: clinic_nodes_def shibuya_world_def demo_world_def demo_node_def
        node_to_medical_facility_def make_facility_def node_address_def address_components_def
        truthy_str_def truthy_float_def fetch_reverse_geocode_def reverse_address_def
        initial_state_def Let_def)
  from missing_address_filled [OF prod.collapse [symmetric] _ n u k, of shibuya_world "''Shibuya''" None None initial_state]
  obtain a where "address (fst ?r ! 1) = Some a" and "reverse_cache (snd ?r) (35, 139) = Some a"
    by (auto simp add: clinic_nodes_def)
  with c have "address (fst ?r ! 1) = Some ''2 Udagawacho''" by simp
  with n d c0 c show ?thesis by simp
qed

text \<open>
  The claim as stated fails: the reverse geocoder finds no match for the node's position,
  and the address becomes \<open>Address not found\<close>, which is neither a reverse-geocoded
  address nor a string containing the coordinates.
\<close>

theorem no_match_address_placeholder:
  "address (fst (node_to_medical_facility district_world [demo_node ''Clinic B'' None 35 139]
       ''Shibuya'' None None initial_state) ! 0) = Some ''Address not found''
   \<and> reverse_geocode district_world [] (35, 139) = ReverseNoMatch
   \<and> str_decimal district_world 35 = ''35.0''
   \<and> \<not> py_in ''35.0'' ''Address not found''"
  by (simp add: district_world_def demo_world_def demo_node_def demo_str_def digits.simps
      node_to_medical_facility_def make_facility_def node_address_def address_components_def
      truthy_str_def truthy_float_def fetch_reverse_geocode_def reverse_address_def
      initial_state_def Let_def)

text \<open>
  Nodes that share a coordinate pair are outside the statement above. The loop of lines 98
  to 101 stops at the first facility at the position, so of two such nodes without address
  tags the second keeps \<open>None\<close>.
\<close>

lemma shared_coordinates_keep_none:
  "map address (fst (node_to_medical_facility shibuya_world
       [demo_node ''Clinic B'' None 35 139, demo_node ''Dentist D'' None 35 139]
       ''Shibuya'' None None initial_state)) = [Some ''2 Udagawacho'', None]"
  by (simp add: shibuya_world_def demo_world_def demo_node_def
      node_to_medical_facility_def make_facility_def node_address_def address_components_def
      truthy_str_def truthy_float_def fetch_reverse_geocode_def reverse_address_def
      initial_state_def Let_def)

subsection \<open>What holds of the distance and of the radius stage\<close>

lemma apply_address_distance:
  "map distance (apply_address k a fs) = map distance fs"
  by (induction fs) auto

lemma second_pass_distance:
  "map distance (fst (second_pass W cs fs st)) = map distance fs"
proof (induction cs arbitrary: fs st)
  case Nil
  show ?case by simp
next
  case (Cons c cs)
  obtain k a st1 where f: "fetch_reverse_geocode W c st = ((k, a), st1)"
    by (metis prod.collapse)
  with Cons.IH [of "apply_address k a fs" st1] show ?case
    by (simp add: apply_address_distance)
qed

text \<open>
  The enrichment computes a distance exactly when both reference coordinates are truthy,
  that is supplied and not 0.0.
\<close>

lemma distance_present_iff_truthy:
  assumes "i < length nodes"
  shows "distance (fst (node_to_medical_facility W nodes label ref_lat ref_lon st) ! i) \<noteq> None
    \<longleftrightarrow> truthy_float ref_lat \<and> truthy_float ref_lon"
proof -
  let ?fs = "map (make_facility W label ref_lat ref_lon) nodes"
  let ?r = "fst (node_to_medical_facility W nodes label ref_lat ref_lon st)"
  have m: "map distance ?r = map distance ?fs"
    by (simp add: node_to_medical_facility_def Let_def second_pass_distance)
  then have "length ?r = length nodes"
    using length_map [of distance ?r] by simp
  with assms m have "distance (?r ! i) = distance (?fs ! i)"
    by (metis length_map nth_map)
  with assms show ?thesis
    by (simp add: make_facility_def)
qed

lemma sorted_take: "sorted xs \<Longrightarrow> sorted (take n xs)"
  by (simp add: sorted_wrt_take)

text \<open>
  What the radius stage returns is not empty, has at most 10 records and is ascending in
  the sort key, in which a distance of 0.0 counts as infinity like a missing one.
\<close>

lemma radius_search_sorted_capped:
  assumes "radius_search W la lo r st = (Some found, st')"
  shows "found \<noteq> [] \<and> length found \<le> 10 \<and> sorted (map distance_key found)"
  using assms
proof (induction W la lo r st rule: radius_search.induct)
  case (1 W la lo current_radius st)
  obtain hs st1 where q: "query_hospitals_around W la lo current_radius st = (hs, st1)"
    by (cases "query_hospitals_around W la lo current_radius st")
  have le: "current_radius \<le> 50000"
    using "1.prems" by (cases "current_radius \<le> 50000")
      (simp_all add: radius_search.simps [of W la lo current_radius st])
  show ?case
  proof (cases "hs = []")
    case True
    with le q "1.prems" have "radius_search W la lo (current_radius + 5000) st1 = (Some found, st')"
      by (simp add: radius_search.simps [of W la lo current_radius st])
    with "1.IH" [OF le q [symmetric]] True show ?thesis by simp
  next
    case False
    with le q "1.prems" have f: "found = take 10 hs"
      by (simp add: radius_search.simps [of W la lo current_radius st])
    have "sorted (map distance_key hs)"
      using sorted_query_hospitals_around [of W la lo current_radius st] q by simp
    then have "sorted (map distance_key (take 10 hs))"
      by (simp add: take_map [symmetric] sorted_take)
    with f False show ?thesis by simp
  qed
qed

end
